(* ===== verification/Prelude.thy ===== *)
theory Prelude
  imports Main "HOL-Library.Word" "HOL-Library.Char_ord"
begin

text \<open>
  Shared vocabulary of the development: the collections the component proofs draw on,
  and the generic facts on lists and partial maps that several components need. Nothing
  here is specific to the tunnel program.
\<close>

section \<open>Collections\<close>

named_theorems go_simps \<open>evaluation rules of the modelled Go library functions\<close>
named_theorems inv_intros \<open>preservation of the component invariants by the operations\<close>

type_synonym byte = "8 word"

section \<open>Interfaces shared by several components\<close>

text \<open>
  A pair of functions of which the second recovers what the first one wrote, on the
  values the first one accepts. Identifiers, pool keys, public host names and control
  messages all have this contract.
\<close>

locale codec =
  fixes valid :: "'a \<Rightarrow> bool"
    and enc :: "'a \<Rightarrow> 'b"
    and dec :: "'b \<Rightarrow> 'a option"
  assumes dec_enc: "valid a \<Longrightarrow> dec (enc a) = Some a"
begin

lemma enc_inj: "valid a \<Longrightarrow> valid b \<Longrightarrow> enc a = enc b \<longleftrightarrow> a = b"
  using dec_enc by (metis option.inject)

lemma inj_on_enc: "inj_on enc {a. valid a}"
  by (auto intro!: inj_onI simp: enc_inj)

end

text \<open>
  A transition system with an invariant that holds at the start and that every step
  keeps: it then holds in every state the steps can reach.
\<close>

locale invariant_system =
  fixes start :: "'s \<Rightarrow> bool"
    and step :: "'s \<Rightarrow> 's \<Rightarrow> bool"
    and inv :: "'s \<Rightarrow> bool"
  assumes start_inv: "start s \<Longrightarrow> inv s"
    and step_inv: "step s t \<Longrightarrow> inv s \<Longrightarrow> inv t"
begin

lemma steps_inv: "step\<^sup>*\<^sup>* s t \<Longrightarrow> inv s \<Longrightarrow> inv t"
  by (induction rule: rtranclp_induct) (auto intro: step_inv)

lemma reachable_inv: "start s \<Longrightarrow> step\<^sup>*\<^sup>* s t \<Longrightarrow> inv t"
  by (blast intro: steps_inv start_inv)

end

text \<open>
  Such a system implements another one if an abstraction of its states turns every step into
  steps of the other; then all its runs are, abstractly, runs of the other.
\<close>

locale simulation = invariant_system start step inv
    for start :: "'s \<Rightarrow> bool" and step :: "'s \<Rightarrow> 's \<Rightarrow> bool" and inv :: "'s \<Rightarrow> bool" +
  fixes abs :: "'s \<Rightarrow> 'a"
    and astep :: "'a \<Rightarrow> 'a \<Rightarrow> bool"
  assumes step_sim: "step s t \<Longrightarrow> inv s \<Longrightarrow> astep\<^sup>*\<^sup>* (abs s) (abs t)"
begin

lemma runs_refine:
  assumes "start s" "step\<^sup>*\<^sup>* s t"
  shows "astep\<^sup>*\<^sup>* (abs s) (abs t)"
  using assms(2)
proof (induction rule: rtranclp_induct)
  case (step t u)
  from step_sim [OF step.hyps(2) reachable_inv [OF assms(1) step.hyps(1)]] step.IH show ?case
    by (rule rtranclp_trans [rotated])
qed simp

end

text \<open>
  The trace of a run: the events its steps emit, in their order. \<open>performs\<close> is what a
  deterministic specification does on a list of events, and \<open>None\<close> if it does not allow it.
\<close>

inductive traced :: "('s \<Rightarrow> 's \<Rightarrow> bool) \<Rightarrow> ('s \<Rightarrow> 's \<Rightarrow> 'e list \<Rightarrow> bool) \<Rightarrow> 's \<Rightarrow> 's \<Rightarrow> 'e list \<Rightarrow> bool"
  for step emits s0 where
  trace_start: "traced step emits s0 s0 []"
| trace_step: "\<lbrakk>traced step emits s0 s es; step s t; emits s t ds\<rbrakk> \<Longrightarrow> traced step emits s0 t (es @ ds)"

fun performs :: "('e \<Rightarrow> 'a \<Rightarrow> 'a option) \<Rightarrow> 'e list \<Rightarrow> 'a \<Rightarrow> 'a option" where
  "performs f [] a = Some a"
| "performs f (e # es) a = (case f e a of None \<Rightarrow> None | Some b \<Rightarrow> performs f es b)"

lemma performs_append:
  "performs f (es @ ds) a = (case performs f es a of None \<Rightarrow> None | Some b \<Rightarrow> performs f ds b)"
  by (induction es arbitrary: a) (auto split: option.split)

lemma traced_steps: "traced step emits s0 s es \<Longrightarrow> step\<^sup>*\<^sup>* s0 s"
  by (induction rule: traced.induct) (auto intro: rtranclp.rtrancl_into_rtrancl)

text \<open>
  A system follows a deterministic specification if every step emits events, and performing
  the events of a step takes the abstraction of one state to that of the next. Then every run
  has a trace, and every trace, performed, gives the abstraction of the state it ends in.
\<close>

locale traced_simulation = invariant_system start step inv
    for start :: "'s \<Rightarrow> bool" and step :: "'s \<Rightarrow> 's \<Rightarrow> bool" and inv :: "'s \<Rightarrow> bool" +
  fixes emits :: "'s \<Rightarrow> 's \<Rightarrow> 'e list \<Rightarrow> bool"
    and abs :: "'s \<Rightarrow> 'a"
    and perform :: "'e \<Rightarrow> 'a \<Rightarrow> 'a option"
  assumes step_emits: "step s t \<Longrightarrow> inv s \<Longrightarrow> \<exists>ds. emits s t ds"
    and emits_sim: "step s t \<Longrightarrow> inv s \<Longrightarrow> emits s t ds \<Longrightarrow> performs perform ds (abs s) = Some (abs t)"
begin

lemma runs_traced:
  assumes "start s0" "step\<^sup>*\<^sup>* s0 s"
  shows "\<exists>es. traced step emits s0 s es"
  using assms(2)
proof (induction rule: rtranclp_induct)
  case (step t u)
  from step_emits [OF step.hyps(2) reachable_inv [OF assms(1) step.hyps(1)]] step show ?case
    by (blast intro: trace_step)
qed (blast intro: trace_start)

lemma traces_perform:
  assumes "start s0" "traced step emits s0 s es"
  shows "performs perform es (abs s0) = Some (abs s)"
  using assms(2)
proof (induction rule: traced.induct)
  case (trace_step s es t ds)
  from traced_steps [OF trace_step.hyps(1)] have "inv s" by (rule reachable_inv [OF assms(1)])
  with emits_sim trace_step show ?case by (simp add: performs_append)
qed simp

end

section \<open>Lists\<close>

lemma takeWhile_append_stop:
  "\<lbrakk>\<forall>x \<in> set xs. P x; \<not> P y\<rbrakk> \<Longrightarrow> takeWhile P (xs @ y # ys) = xs"
  by (induction xs) auto

lemma dropWhile_append_stop:
  "\<lbrakk>\<forall>x \<in> set xs. P x; \<not> P y\<rbrakk> \<Longrightarrow> dropWhile P (xs @ y # ys) = y # ys"
  by (induction xs) auto

lemma dropWhile_id: "(xs = [] \<or> \<not> P (hd xs)) \<Longrightarrow> dropWhile P xs = xs"
  by (cases xs) auto

lemma filter_id: "\<forall>x \<in> set xs. P x \<Longrightarrow> filter P xs = xs"
  by (induction xs) auto

lemma map_id_on: "\<forall>x \<in> set xs. f x = x \<Longrightarrow> map f xs = xs"
  by (induction xs) auto

section \<open>Partial maps\<close>

lemma option_eq_by_Some: "(\<And>v. a = Some v \<longleftrightarrow> b = Some v) \<Longrightarrow> a = b"
  by (cases a; cases b) auto

text \<open>Deleting and storing a list of keys, the two loops over a client's host names.\<close>

fun map_delete_all :: "('k \<Rightarrow> 'a) \<Rightarrow> 'k list \<Rightarrow> ('a \<rightharpoonup> 'v) \<Rightarrow> ('a \<rightharpoonup> 'v)" where
  "map_delete_all f [] m = m"
| "map_delete_all f (k # ks) m = map_delete_all f ks (m(f k := None))"

fun map_store_all :: "('k \<Rightarrow> 'a) \<Rightarrow> 'k list \<Rightarrow> 'v \<Rightarrow> ('a \<rightharpoonup> 'v) \<Rightarrow> ('a \<rightharpoonup> 'v)" where
  "map_store_all f [] v m = m"
| "map_store_all f (k # ks) v m = map_store_all f ks v (m(f k \<mapsto> v))"

lemma map_delete_all_apply:
  "map_delete_all f ks m a = (if a \<in> f ` set ks then None else m a)"
  by (induction ks arbitrary: m) auto

lemma map_store_all_apply:
  "map_store_all f ks v m a = (if a \<in> f ` set ks then Some v else m a)"
  by (induction ks arbitrary: m) auto

end
