(* ===== verification/GoStrings.thy ===== *)
theory GoStrings
  imports Prelude
begin

text \<open>
  The parts of Go's standard library that the program's own code computes with: byte
  search and trimming (package strings), host and port splitting (package net), number
  recognition (package strconv). A Go string is a sequence of bytes, so it is a
  \<^typ>\<open>string\<close>, whose characters are bytes. Where the library consults the Unicode
  tables (case mapping of a string that is not ASCII) the table is an argument.
\<close>

section \<open>Searching and trimming\<close>

fun index_byte :: "char \<Rightarrow> string \<Rightarrow> nat option" where
  "index_byte c [] = None"
| "index_byte c (x # xs) = (if x = c then Some 0 else map_option Suc (index_byte c xs))"

definition last_index_byte :: "char \<Rightarrow> string \<Rightarrow> nat option" where
  "last_index_byte c s =
     (case index_byte c (rev s) of None \<Rightarrow> None | Some k \<Rightarrow> Some (length s - 1 - k))"

definition trim_byte :: "char \<Rightarrow> string \<Rightarrow> string" where
  "trim_byte c s = rev (dropWhile (\<lambda>x. x = c) (rev (dropWhile (\<lambda>x. x = c) s)))"

definition trim_suffix :: "string \<Rightarrow> string \<Rightarrow> string" where
  "trim_suffix s suf =
     (if length suf \<le> length s \<and> drop (length s - length suf) s = suf
      then take (length s - length suf) s else s)"

text \<open>\<open>strings.Replace\<close> of one byte, by another one or by nothing.\<close>

definition replace_byte :: "char \<Rightarrow> char \<Rightarrow> string \<Rightarrow> string" where
  "replace_byte a b s = map (\<lambda>x. if x = a then b else x) s"

definition remove_byte :: "char \<Rightarrow> string \<Rightarrow> string" where
  "remove_byte a s = filter (\<lambda>x. x \<noteq> a) s"

lemma index_byte_None [go_simps]: "index_byte c s = None \<longleftrightarrow> c \<notin> set s"
  by (induction s) auto

lemma index_byte_append:
  "index_byte c (s @ t) =
     (case index_byte c s of Some k \<Rightarrow> Some k
      | None \<Rightarrow> map_option (\<lambda>k. length s + k) (index_byte c t))"
proof (induction s)
  case Nil
  then show ?case by (cases "index_byte c t") auto
next
  case (Cons x xs)
  then show ?case
    by (cases "index_byte c xs"; cases "index_byte c t") auto
qed

lemma index_byte_split:
  "index_byte c s = Some k \<longleftrightarrow>
     k < length s \<and> s ! k = c \<and> c \<notin> set (take k s)"
proof (induction s arbitrary: k)
  case Nil
  then show ?case by simp
next
  case (Cons x xs)
  show ?case by (cases k) (auto simp: Cons.IH)
qed

lemma last_index_byte_None: "last_index_byte c s = None \<longleftrightarrow> c \<notin> set s"
  using index_byte_None [of c "rev s"]
  by (auto simp: last_index_byte_def split: option.splits)

lemma last_index_byte_append:
  assumes "c \<notin> set t"
  shows "last_index_byte c (s @ c # t) = Some (length s)"
proof -
  have "index_byte c (rev t) = None" using assms by (simp add: go_simps)
  then have "index_byte c (rev (s @ c # t)) = Some (length t)"
    by (simp add: index_byte_append)
  then show ?thesis by (simp add: last_index_byte_def)
qed

lemma last_index_byte_split:
  assumes "last_index_byte c s = Some i"
  obtains p q where "s = p @ c # q" "length p = i" "c \<notin> set q"
proof -
  from assms have "c \<in> set s" using last_index_byte_None [of c s] by auto
  then obtain p q where pq: "s = p @ c # q" "c \<notin> set q" by (auto dest: split_list_last)
  with assms have "length p = i" by (simp add: last_index_byte_append)
  with pq that show ?thesis by blast
qed

lemma trim_byte_id:
  assumes "s = [] \<or> (hd s \<noteq> c \<and> last s \<noteq> c)"
  shows "trim_byte c s = s"
proof (cases "s = []")
  case True
  then show ?thesis by (simp add: trim_byte_def)
next
  case False
  with assms have "dropWhile (\<lambda>x. x = c) s = s" by (simp add: dropWhile_id)
  moreover from False assms have "dropWhile (\<lambda>x. x = c) (rev s) = rev s"
    by (simp add: dropWhile_id hd_rev)
  ultimately show ?thesis by (simp add: trim_byte_def)
qed

lemma trim_byte_padding:
  assumes "s \<noteq> []" "hd s \<noteq> c" "last s \<noteq> c"
  shows "trim_byte c (s @ replicate n c) = s"
proof -
  have "dropWhile (\<lambda>x. x = c) (s @ replicate n c) = s @ replicate n c"
    using assms(1,2) by (cases s) auto
  moreover have "dropWhile (\<lambda>x. x = c) (replicate n c @ rev s) = rev s"
    using assms(1,3) by (induction n) (auto simp: dropWhile_id hd_rev)
  ultimately show ?thesis by (simp add: trim_byte_def)
qed

lemma trim_suffix_append [simp]: "trim_suffix (s @ suf) suf = s"
  by (simp add: trim_suffix_def)

lemma replace_byte_id: "a \<notin> set s \<Longrightarrow> replace_byte a b s = s"
  by (auto simp: replace_byte_def intro: map_id_on)

lemma remove_byte_id: "a \<notin> set s \<Longrightarrow> remove_byte a s = s"
  by (auto simp: remove_byte_def intro: filter_id)

lemma remove_byte_append [simp]: "remove_byte a (s @ t) = remove_byte a s @ remove_byte a t"
  by (simp add: remove_byte_def)

section \<open>Letter case\<close>

definition is_ascii :: "char \<Rightarrow> bool" where
  "is_ascii c \<longleftrightarrow> c < CHR 0x80"

definition char_between :: "char \<Rightarrow> char \<Rightarrow> char \<Rightarrow> bool" where
  "char_between lo hi c \<longleftrightarrow> lo \<le> c \<and> c \<le> hi"

lemma char_between_ascii: "\<lbrakk>char_between lo hi c; hi < CHR 0x80\<rbrakk> \<Longrightarrow> is_ascii c"
  by (auto simp: char_between_def is_ascii_def)

lemma char_between_disjoint: "\<lbrakk>char_between lo hi c; hi < lo' \<or> hi' < lo\<rbrakk> \<Longrightarrow> \<not> char_between lo' hi' c"
  by (auto simp: char_between_def)

definition ascii_upper :: "char \<Rightarrow> char" where
  "ascii_upper c = (if char_between CHR ''a'' CHR ''z'' c then char_of (of_char c - 32 :: nat) else c)"

definition ascii_lower :: "char \<Rightarrow> char" where
  "ascii_lower c = (if char_between CHR ''A'' CHR ''Z'' c then char_of (of_char c + 32 :: nat) else c)"

text \<open>
  \<open>strings.ToUpper\<close> and \<open>strings.ToLower\<close>: byte by byte on an ASCII string, by the
  Unicode tables (the argument \<open>uni\<close>) on any other.
\<close>

definition to_upper :: "(string \<Rightarrow> string) \<Rightarrow> string \<Rightarrow> string" where
  "to_upper uni s = (if \<forall>c \<in> set s. is_ascii c then map ascii_upper s else uni s)"

definition to_lower :: "(string \<Rightarrow> string) \<Rightarrow> string \<Rightarrow> string" where
  "to_lower uni s = (if \<forall>c \<in> set s. is_ascii c then map ascii_lower s else uni s)"

definition is_lower_or_caseless :: "char \<Rightarrow> bool" where
  "is_lower_or_caseless c \<longleftrightarrow> is_ascii c \<and> \<not> char_between CHR ''A'' CHR ''Z'' c"

definition is_upper_or_caseless :: "char \<Rightarrow> bool" where
  "is_upper_or_caseless c \<longleftrightarrow> is_ascii c \<and> \<not> char_between CHR ''a'' CHR ''z'' c"

lemma to_upper_id: "\<forall>c \<in> set s. is_upper_or_caseless c \<Longrightarrow> to_upper uni s = s"
  by (auto simp: to_upper_def is_upper_or_caseless_def ascii_upper_def intro!: map_id_on)

lemma to_lower_id: "\<forall>c \<in> set s. is_lower_or_caseless c \<Longrightarrow> to_lower uni s = s"
  by (auto simp: to_lower_def is_lower_or_caseless_def ascii_lower_def intro!: map_id_on)

end
