(* ===== verification/Base32.thy ===== *)
theory Base32
  imports GoStrings
begin

text \<open>
  Package encoding/base32 with the standard alphabet and \<open>=\<close> padding, as far as package
  id uses it: \<open>EncodeToString\<close> and \<open>DecodeString\<close>, the latter with every way in which
  it stops early (a character outside the alphabet, padding in the wrong place, carriage
  returns and line feeds dropped before anything else).
\<close>

unbundle bit_operations_syntax

section \<open>Alphabet\<close>

definition b32_alphabet :: string where
  "b32_alphabet = ''ABCDEFGHIJKLMNOPQRSTUVWXYZ234567''"

definition b32_char :: "byte \<Rightarrow> char" where
  "b32_char q = b32_alphabet ! unat q"

text \<open>The decoding table: \<open>255\<close> marks a byte that is no letter of the alphabet.\<close>

definition b32_value :: "char \<Rightarrow> byte" where
  "b32_value c = (case index_byte c b32_alphabet of Some k \<Rightarrow> of_nat k | None \<Rightarrow> 255)"

section \<open>Encoding\<close>

definition b32_quintets :: "byte \<Rightarrow> byte \<Rightarrow> byte \<Rightarrow> byte \<Rightarrow> byte \<Rightarrow> byte list" where
  "b32_quintets a b c d e =
     [drop_bit 3 a,
      (push_bit 2 a OR drop_bit 6 b) AND 31,
      drop_bit 1 b AND 31,
      (push_bit 4 b OR drop_bit 4 c) AND 31,
      (push_bit 1 c OR drop_bit 7 d) AND 31,
      drop_bit 2 d AND 31,
      (push_bit 3 d OR drop_bit 5 e) AND 31,
      e AND 31]"

definition b32_group :: "byte \<Rightarrow> byte \<Rightarrow> byte \<Rightarrow> byte \<Rightarrow> byte \<Rightarrow> string" where
  "b32_group a b c d e = map b32_char (b32_quintets a b c d e)"

fun b32_encode :: "byte list \<Rightarrow> string" where
  "b32_encode [] = []"
| "b32_encode [a] = take 2 (b32_group a 0 0 0 0) @ replicate 6 CHR ''=''"
| "b32_encode [a, b] = take 4 (b32_group a b 0 0 0) @ replicate 4 CHR ''=''"
| "b32_encode [a, b, c] = take 5 (b32_group a b c 0 0) @ replicate 3 CHR ''=''"
| "b32_encode [a, b, c, d] = take 7 (b32_group a b c d 0) @ replicate 1 CHR ''=''"
| "b32_encode (a # b # c # d # e # rest) = b32_group a b c d e @ b32_encode rest"

section \<open>Decoding\<close>

text \<open>
  One quantum: up to eight letters are collected in \<open>d\<close>. The result is what was
  collected, the input left, and whether padding ended the text.
\<close>

fun b32_quantum :: "byte list \<Rightarrow> string \<Rightarrow> (byte list \<times> string \<times> bool) option" where
  "b32_quantum d [] = (if length d = 8 then Some (d, [], False) else None)"
| "b32_quantum d (c # src) =
     (if length d = 8 then Some (d, c # src, False)
      else if c = CHR ''='' \<and> 2 \<le> length d \<and> length src < 8 then
        if length src + length d < 7 then None
        else if \<exists>k \<in> set [0 ..< 7 - length d]. k < length src \<and> src ! k \<noteq> CHR ''='' then None
        else if length d = 3 \<or> length d = 6 then None
        else Some (d, src, True)
      else if b32_value c = 255 then None
      else b32_quantum (d @ [b32_value c]) src)"

text \<open>Packing the collected letters: the missing ones yield no byte.\<close>

definition b32_pack :: "byte list \<Rightarrow> byte list" where
  "b32_pack d =
     (if 2 \<le> length d then [push_bit 3 (d ! 0) OR drop_bit 2 (d ! 1)] else []) @
     (if 4 \<le> length d then [push_bit 6 (d ! 1) OR push_bit 1 (d ! 2) OR drop_bit 4 (d ! 3)] else []) @
     (if 5 \<le> length d then [push_bit 4 (d ! 3) OR drop_bit 1 (d ! 4)] else []) @
     (if 7 \<le> length d then [push_bit 7 (d ! 4) OR push_bit 2 (d ! 5) OR drop_bit 3 (d ! 6)] else []) @
     (if 8 \<le> length d then [push_bit 5 (d ! 6) OR (d ! 7)] else [])"

lemma b32_quantum_shorter:
  "b32_quantum d src = Some (d', rest, fin) \<Longrightarrow> length d < 8 \<Longrightarrow> length rest < length src"
proof (induction d src rule: b32_quantum.induct)
  case (1 d)
  then show ?case by simp
next
  case (2 d c src)
  show ?case
  proof (cases "length (d @ [b32_value c]) = 8")
    case True
    with 2 show ?thesis by (cases src) (auto split: if_splits)
  next
    case False
    with 2 show ?thesis by (auto split: if_splits)
  qed
qed

function b32_decode_raw :: "string \<Rightarrow> byte list option" where
  "b32_decode_raw src =
     (if src = [] then Some []
      else case b32_quantum [] src of
             None \<Rightarrow> None
           | Some (d, rest, fin) \<Rightarrow>
               if fin then Some (b32_pack d)
               else map_option (append (b32_pack d)) (b32_decode_raw rest))"
  by pat_completeness auto
termination
  by (relation "measure length") (auto dest: b32_quantum_shorter)

declare b32_decode_raw.simps [simp del]

definition b32_decode :: "string \<Rightarrow> byte list option" where
  "b32_decode s = b32_decode_raw (filter (\<lambda>c. c \<noteq> CHR 0x0A \<and> c \<noteq> CHR 0x0D) s)"

section \<open>The round trip\<close>

lemma b32_alphabet_index:
  "\<forall>k \<in> set [0 ..< 32]. index_byte (b32_alphabet ! k) b32_alphabet = Some k"
  by code_simp

lemma b32_value_char: "unat q < 32 \<Longrightarrow> b32_value (b32_char q) = q"
  using b32_alphabet_index by (auto simp: b32_value_def b32_char_def)

lemma b32_alphabet_length [simp]: "length b32_alphabet = 32"
  by (simp add: b32_alphabet_def)

lemma b32_char_in_alphabet: "unat q < 32 \<Longrightarrow> b32_char q \<in> set b32_alphabet"
  by (simp add: b32_char_def)

lemma unat_and_31: "unat (w AND 31 :: byte) < 32"
proof -
  have "unat (w AND 31) \<le> unat (31 :: byte)"
    by (rule word_and_le1 [THEN word_le_nat_alt [THEN iffD1]])
  then show ?thesis by simp
qed

lemma unat_drop_3: "unat (drop_bit 3 w :: byte) < 32"
proof -
  have "unat w < 256" using unsigned_less [of w] by simp
  moreover have "unat (drop_bit 3 w) = drop_bit 3 (unat w)" by (rule unat_drop_bit_eq)
  ultimately show ?thesis by (simp only: drop_bit_eq_div [where 'a = nat]) simp
qed

lemma b32_quintets_small: "q \<in> set (b32_quintets a b c d e) \<Longrightarrow> unat q < 32"
  by (auto simp: b32_quintets_def unat_and_31 unat_drop_3)

lemma b32_quintets_length [simp]: "length (b32_quintets a b c d e) = 8"
  by (simp add: b32_quintets_def)

lemma b32_group_length [simp]: "length (b32_group a b c d e) = 8"
  by (simp add: b32_group_def)

lemma b32_group_alphabet: "x \<in> set (b32_group a b c d e) \<Longrightarrow> x \<in> set b32_alphabet"
  by (auto simp: b32_group_def intro: b32_char_in_alphabet b32_quintets_small)

lemma less_8_cases: "(n::nat) < 8 \<Longrightarrow> n = 0 \<or> n = 1 \<or> n = 2 \<or> n = 3 \<or> n = 4 \<or> n = 5 \<or> n = 6 \<or> n = 7"
  by arith

lemma byte_eqI:
  assumes "\<And>n. n \<in> {0, 1, 2, 3, 4, 5, 6, 7} \<Longrightarrow> bit (v :: byte) n = bit w n"
  shows "v = w"
  by (rule bit_word_eqI) (use assms less_8_cases in auto)

lemmas b32_bits = b32_pack_def b32_quintets_def bit_simps bit_double_iff
  mult.commute [of _ "2 :: byte"] numeral_2_eq_2 [symmetric]

lemma b32_pack_quintets: "b32_pack (b32_quintets a b c d e) = [a, b, c, d, e]"
  by (auto simp: b32_bits intro!: byte_eqI)

lemma b32_pack_partial:
  "b32_pack (take 2 (b32_quintets a 0 0 0 0)) = [a]"
  "b32_pack (take 4 (b32_quintets a b 0 0 0)) = [a, b]"
  "b32_pack (take 5 (b32_quintets a b c 0 0)) = [a, b, c]"
  "b32_pack (take 7 (b32_quintets a b c d 0)) = [a, b, c, d]"
proof -
  have pack: "b32_pack (take n qs) = take m (b32_pack qs)"
    if "length qs = 8" "(n, m) \<in> {(2, 1), (4, 2), (5, 3), (7, 4)}" for n m qs
    using that by (auto simp: b32_pack_def)
  show "b32_pack (take 2 (b32_quintets a 0 0 0 0)) = [a]"
    "b32_pack (take 4 (b32_quintets a b 0 0 0)) = [a, b]"
    "b32_pack (take 5 (b32_quintets a b c 0 0)) = [a, b, c]"
    "b32_pack (take 7 (b32_quintets a b c d 0)) = [a, b, c, d]"
    by (simp_all add: pack [where m = 1] pack [where m = 2] pack [where m = 3]
        pack [where m = 4] b32_pack_quintets)
qed

lemma b32_alphabet_no_special:
  "CHR ''='' \<notin> set b32_alphabet" "CHR 0x0A \<notin> set b32_alphabet" "CHR 0x0D \<notin> set b32_alphabet"
  by (simp_all add: b32_alphabet_def)

lemma b32_char_plain:
  assumes "unat q < 32"
  shows "b32_char q \<noteq> CHR ''=''" "b32_char q \<noteq> CHR 0x0A" "b32_char q \<noteq> CHR 0x0D"
  using b32_char_in_alphabet [OF assms] b32_alphabet_no_special by metis+

lemma b32_value_char_valid: "unat q < 32 \<Longrightarrow> b32_value (b32_char q) \<noteq> 255"
  by (auto simp: b32_value_char)

lemma b32_quantum_full:
  "\<lbrakk>length d + length qs = 8; \<forall>q \<in> set qs. unat q < 32\<rbrakk> \<Longrightarrow>
     b32_quantum d (map b32_char qs @ rest) = Some (d @ qs, rest, False)"
proof (induction qs arbitrary: d)
  case Nil
  then show ?case by (cases rest) auto
next
  case (Cons q qs)
  then show ?case by (auto simp: b32_char_plain b32_value_char_valid b32_value_char)
qed

lemma b32_quantum_padded:
  "\<lbrakk>length d + length qs = k; k \<in> {2, 4, 5, 7}; \<forall>q \<in> set qs. unat q < 32\<rbrakk> \<Longrightarrow>
     b32_quantum d (map b32_char qs @ replicate (8 - k) CHR ''='')
       = Some (d @ qs, replicate (7 - k) CHR ''='', True)"
proof (induction qs arbitrary: d)
  case Nil
  then have "8 - k = Suc (7 - k)" by auto
  with Nil show ?case by (auto simp: nth_Cons')
next
  case (Cons q qs)
  then show ?case by (auto simp: b32_char_plain b32_value_char_valid b32_value_char)
qed

lemma b32_decode_raw_group:
  "b32_decode_raw (b32_group a b c d e @ rest) = map_option ((@) [a, b, c, d, e]) (b32_decode_raw rest)"
proof -
  have "b32_quintets a b c d e \<noteq> []" by (simp add: b32_quintets_def)
  then show ?thesis
    using b32_quantum_full [of "[]" "b32_quintets a b c d e" rest]
    by (subst b32_decode_raw.simps)
       (simp add: b32_group_def b32_quintets_small b32_pack_quintets)
qed

lemma b32_decode_raw_padded:
  assumes "k \<in> {2, 4, 5, 7}"
  shows "b32_decode_raw (take k (b32_group a b c d e) @ replicate (8 - k) CHR ''='')
    = Some (b32_pack (take k (b32_quintets a b c d e)))"
proof -
  let ?qs = "take k (b32_quintets a b c d e)"
  have "\<forall>q \<in> set ?qs. unat q < 32" by (auto dest!: in_set_takeD b32_quintets_small)
  moreover have "length ?qs = k" using assms by auto
  ultimately have "b32_quantum [] (map b32_char ?qs @ replicate (8 - k) CHR ''='')
      = Some (?qs, replicate (7 - k) CHR ''='', True)"
    using b32_quantum_padded [of "[]" ?qs k] assms by simp
  moreover have "replicate (8 - k) CHR ''='' \<noteq> []" using assms by auto
  ultimately show ?thesis
    by (subst b32_decode_raw.simps) (simp add: b32_group_def take_map)
qed

lemma b32_decode_raw_encode: "b32_decode_raw (b32_encode bs) = Some bs"
proof (induction bs rule: b32_encode.induct)
  case 1
  then show ?case by (subst b32_decode_raw.simps) simp
next
  case (2 a)
  then show ?case using b32_decode_raw_padded [of 2 a 0 0 0 0] by (simp add: b32_pack_partial)
next
  case (3 a b)
  then show ?case using b32_decode_raw_padded [of 4 a b 0 0 0] by (simp add: b32_pack_partial)
next
  case (4 a b c)
  then show ?case using b32_decode_raw_padded [of 5 a b c 0 0] by (simp add: b32_pack_partial)
next
  case (5 a b c d)
  then show ?case using b32_decode_raw_padded [of 7 a b c d 0] by (simp add: b32_pack_partial)
next
  case (6 a b c d e rest)
  then show ?case by (simp add: b32_decode_raw_group)
qed

lemma b32_encode_chars: "c \<in> set (b32_encode bs) \<Longrightarrow> c \<in> set b32_alphabet \<or> c = CHR ''=''"
  by (induction bs rule: b32_encode.induct)
     (auto dest!: in_set_takeD dest: b32_group_alphabet)

lemma b32_decode_encode: "b32_decode (b32_encode bs) = Some bs"
proof -
  have "c \<noteq> CHR 0x0A \<and> c \<noteq> CHR 0x0D" if "c \<in> set (b32_encode bs)" for c
    using b32_encode_chars [OF that] b32_alphabet_no_special by auto
  then have "filter (\<lambda>c. c \<noteq> CHR 0x0A \<and> c \<noteq> CHR 0x0D) (b32_encode bs) = b32_encode bs"
    by (simp add: filter_id)
  then show ?thesis by (simp add: b32_decode_def b32_decode_raw_encode)
qed

interpretation b32: codec "\<lambda>_. True" b32_encode b32_decode
  by unfold_locales (simp add: b32_decode_encode)

end
