(* ===== verification/HostPort.thy ===== *)
theory HostPort
  imports GoStrings
begin

text \<open>
  Network addresses as the program handles them: \<open>net.SplitHostPort\<close> with every error
  branch, \<open>trimPort\<close> (registry.go), and \<open>NormalizeAddress\<close> (utils.go) with the number
  test of \<open>strconv.Atoi\<close> it starts with.
\<close>

section \<open>Splitting host and port\<close>

datatype addr_error =
    MissingPort string
  | TooManyColons string
  | MissingBracket string
  | UnexpectedOpen string
  | UnexpectedClose string

text \<open>
  The port starts after the last colon; a host in brackets may contain colons, any other
  host may not; no bracket may stand anywhere else.
\<close>

definition split_host_port :: "string \<Rightarrow> addr_error + (string \<times> string)" where
  "split_host_port s =
     (case last_index_byte CHR '':'' s of
        None \<Rightarrow> Inl (MissingPort s)
      | Some i \<Rightarrow>
          if s ! 0 = CHR ''['' then
            (case index_byte CHR '']'' s of
               None \<Rightarrow> Inl (MissingBracket s)
             | Some e \<Rightarrow>
                 if e + 1 = length s then Inl (MissingPort s)
                 else if e + 1 = i then
                   if CHR ''['' \<in> set (drop 1 s) then Inl (UnexpectedOpen s)
                   else if CHR '']'' \<in> set (drop (e + 1) s) then Inl (UnexpectedClose s)
                   else Inr (take (e - 1) (drop 1 s), drop (i + 1) s)
                 else if s ! (e + 1) = CHR '':'' then Inl (TooManyColons s)
                 else Inl (MissingPort s))
          else if CHR '':'' \<in> set (take i s) then Inl (TooManyColons s)
          else if CHR ''['' \<in> set s then Inl (UnexpectedOpen s)
          else if CHR '']'' \<in> set s then Inl (UnexpectedClose s)
          else Inr (take i s, drop (i + 1) s))"

definition plain_chars :: "string \<Rightarrow> bool" where
  "plain_chars s \<longleftrightarrow> CHR '':'' \<notin> set s \<and> CHR ''['' \<notin> set s \<and> CHR '']'' \<notin> set s"

lemma plain_chars_append [simp]:
  "plain_chars (s @ t) \<longleftrightarrow> plain_chars s \<and> plain_chars t"
  by (auto simp: plain_chars_def)

lemma split_host_port_no_colon:
  "CHR '':'' \<notin> set s \<Longrightarrow> split_host_port s = Inl (MissingPort s)"
  using last_index_byte_None [of "CHR '':''" s] by (simp add: split_host_port_def)

lemma split_host_port_plain [go_simps]:
  assumes "plain_chars h" "plain_chars p"
  shows "split_host_port (h @ CHR '':'' # p) = Inr (h, p)"
proof -
  have "last_index_byte CHR '':'' (h @ CHR '':'' # p) = Some (length h)"
    using assms by (simp add: last_index_byte_append plain_chars_def)
  moreover have "(h @ CHR '':'' # p) ! 0 \<noteq> CHR ''[''"
    using assms by (cases h) (auto simp: plain_chars_def)
  ultimately show ?thesis
    using assms by (auto simp: split_host_port_def plain_chars_def)
qed

lemma split_host_port_bracketed [go_simps]:
  assumes "CHR ''['' \<notin> set h" "CHR '']'' \<notin> set h" "plain_chars p"
  shows "split_host_port (CHR ''['' # h @ CHR '']'' # CHR '':'' # p) = Inr (h, p)"
proof -
  let ?s = "CHR ''['' # h @ CHR '']'' # CHR '':'' # p"
  have "last_index_byte CHR '':'' ((CHR ''['' # h @ [CHR '']'']) @ CHR '':'' # p)
      = Some (length (CHR ''['' # h @ [CHR '']'']))"
    using assms by (intro last_index_byte_append) (simp add: plain_chars_def)
  then have last: "last_index_byte CHR '':'' ?s = Some (length h + 2)" by simp
  have "index_byte CHR '']'' h = None" using assms by (simp add: go_simps)
  then have idx: "index_byte CHR '']'' (h @ CHR '']'' # CHR '':'' # p) = Some (length h)"
    by (simp add: index_byte_append)
  show ?thesis
    using assms by (simp add: split_host_port_def last idx plain_chars_def)
qed

text \<open>The two shapes of an address the function accepts: nothing else succeeds.\<close>

lemma split_host_port_Inr:
  assumes "split_host_port s = Inr (h, p)"
  shows "plain_chars p \<and> CHR ''['' \<notin> set h \<and> CHR '']'' \<notin> set h \<and>
    (s = h @ CHR '':'' # p \<and> plain_chars h \<or>
     s = CHR ''['' # h @ CHR '']'' # CHR '':'' # p)"
proof -
  from assms obtain i where i: "last_index_byte CHR '':'' s = Some i"
    by (auto simp: split_host_port_def split: option.splits)
  then obtain a b where ab: "s = a @ CHR '':'' # b" "length a = i" "CHR '':'' \<notin> set b"
    by (rule last_index_byte_split)
  show ?thesis
  proof (cases "s ! 0 = CHR ''[''")
    case False
    with assms i ab show ?thesis
      by (auto simp: split_host_port_def plain_chars_def split: if_splits)
  next
    case True
    then obtain e where e: "index_byte CHR '']'' s = Some e" "e + 1 = i"
        "CHR ''['' \<notin> set (drop 1 s)" "CHR '']'' \<notin> set (drop (e + 1) s)"
        "h = take (e - 1) (drop 1 s)" "p = b"
      using assms i ab by (auto simp: split_host_port_def split: option.splits if_splits)
    from e(1) have e': "e < length s" "s ! e = CHR '']''" "CHR '']'' \<notin> set (take e s)"
      by (auto simp: index_byte_split)
    have "e \<noteq> 0" using e' True by (cases "e = 0") auto
    have "a \<noteq> []" using True ab by (cases a) auto
    then obtain a' where a': "a = CHR ''['' # a'" using True ab by (cases a) auto
    have "last a = CHR '']''" using e(2) e'(2) ab \<open>a \<noteq> []\<close>
      by (auto simp: last_conv_nth nth_append)
    with a' \<open>e \<noteq> 0\<close> e(2) ab have "a' \<noteq> []" "last a' = CHR '']''" by (auto split: if_splits)
    then have "a' = butlast a' @ [CHR '']'']" by (metis append_butlast_last_id)
    moreover have "length (butlast a') = e - 1" using a' ab e(2) by simp
    moreover have "h = butlast a'"
      using e(5) ab a' calculation by (simp add: butlast_conv_take)
    ultimately have s: "s = CHR ''['' # h @ CHR '']'' # CHR '':'' # p"
      using ab a' e(6) by (metis append.assoc append_Cons append_Nil)
    have "e = length h + 1" using \<open>h = butlast a'\<close> \<open>length (butlast a') = e - 1\<close> \<open>e \<noteq> 0\<close> by simp
    then have "CHR ''['' \<notin> set h" "CHR '']'' \<notin> set h" "plain_chars p"
      using e(3,4) e'(3) s ab(3) e(6) by (auto simp: plain_chars_def)
    with s show ?thesis by blast
  qed
qed

section \<open>trimPort\<close>

definition trim_port :: "string \<Rightarrow> string" where
  "trim_port host_port =
     (let host = (case split_host_port host_port of Inl _ \<Rightarrow> [] | Inr (h, _) \<Rightarrow> h)
      in if host = [] then host_port else host)"

lemma trim_port_no_colon [go_simps]: "CHR '':'' \<notin> set s \<Longrightarrow> trim_port s = s"
  by (simp add: trim_port_def split_host_port_no_colon)

lemma trim_port_plain [go_simps]:
  "\<lbrakk>plain_chars h; plain_chars p; h \<noteq> []\<rbrakk> \<Longrightarrow> trim_port (h @ CHR '':'' # p) = h"
  by (simp add: trim_port_def go_simps)

lemma trim_port_plain_id [go_simps]: "plain_chars s \<Longrightarrow> trim_port s = s"
  by (simp add: trim_port_no_colon plain_chars_def)

section \<open>Numbers\<close>

definition is_digit :: "char \<Rightarrow> bool" where
  "is_digit c \<longleftrightarrow> char_between CHR ''0'' CHR ''9'' c"

definition digit_value :: "char \<Rightarrow> nat" where
  "digit_value c = of_char c - 48"

definition decimal_value :: "string \<Rightarrow> nat" where
  "decimal_value ds = foldl (\<lambda>n c. 10 * n + digit_value c) 0 ds"

text \<open>
  \<open>strconv.Atoi\<close> on a 64-bit platform: an optional sign, at least one decimal digit,
  nothing else, and a value an \<open>int\<close> can hold.
\<close>

definition atoi :: "string \<Rightarrow> int option" where
  "atoi s =
     (let neg = (s \<noteq> [] \<and> hd s = CHR ''-'');
          signed = (s \<noteq> [] \<and> (hd s = CHR ''-'' \<or> hd s = CHR ''+''));
          ds = (if signed then tl s else s);
          n = int (decimal_value ds)
      in if ds = [] \<or> \<not> list_all is_digit ds then None
         else if neg then (if n \<le> 2 ^ 63 then Some (- n) else None)
         else if n < 2 ^ 63 then Some n else None)"

lemma atoi_chars: "atoi s = Some n \<Longrightarrow> plain_chars s"
  by (cases s)
     (auto simp: atoi_def Let_def plain_chars_def list_all_iff is_digit_def char_between_def
       split: if_splits)

lemma atoi_colon: "CHR '':'' \<in> set s \<Longrightarrow> atoi s = None"
  using atoi_chars [of s] by (cases "atoi s") (auto simp: plain_chars_def)

section \<open>NormalizeAddress\<close>

definition normalize_address :: "string \<Rightarrow> addr_error + string" where
  "normalize_address addr =
     (let addr' = (case atoi addr of Some _ \<Rightarrow> CHR '':'' # addr | None \<Rightarrow> addr)
      in case split_host_port addr' of
           Inl e \<Rightarrow> Inl e
         | Inr (host, port) \<Rightarrow>
             let host' = (if host = [] then ''127.0.0.1'' else host)
             in Inr (host' @ '':'' @ port))"

lemma plain_localhost [simp]: "plain_chars ''127.0.0.1''"
  by (simp add: plain_chars_def)

lemma normalize_address_number:
  "atoi s = Some n \<Longrightarrow> normalize_address s = Inr (''127.0.0.1:'' @ s)"
  using split_host_port_plain [of "[]" s] atoi_chars [of s n]
  by (simp add: normalize_address_def plain_chars_def)

lemma normalize_address_plain [go_simps]:
  assumes "plain_chars h" "plain_chars p"
  shows "normalize_address (h @ CHR '':'' # p)
    = Inr ((if h = [] then ''127.0.0.1'' else h) @ '':'' @ p)"
  using assms by (simp add: normalize_address_def go_simps atoi_colon)

lemma normalize_address_no_colon:
  "\<lbrakk>CHR '':'' \<notin> set s; atoi s = None\<rbrakk> \<Longrightarrow> normalize_address s = Inl (MissingPort s)"
  by (simp add: normalize_address_def split_host_port_no_colon)

text \<open>
  Every result has a host that is not empty and a port; it is again an address in normal
  form unless the host is one that needed brackets.
\<close>

lemma normalize_address_Inr:
  assumes "normalize_address s = Inr a"
  obtains h p where "a = h @ CHR '':'' # p" "h \<noteq> []" "plain_chars p"
    "CHR ''['' \<notin> set h" "CHR '']'' \<notin> set h"
    "CHR '':'' \<in> set h \<Longrightarrow> s = CHR ''['' # h @ CHR '']'' # CHR '':'' # p"
proof -
  define s' where "s' = (case atoi s of Some _ \<Rightarrow> CHR '':'' # s | None \<Rightarrow> s)"
  from assms obtain h p where hp: "split_host_port s' = Inr (h, p)"
      "a = (if h = [] then ''127.0.0.1'' else h) @ CHR '':'' # p"
    by (auto simp: normalize_address_def s'_def Let_def split: sum.splits prod.splits)
  note shape = split_host_port_Inr [OF hp(1)]
  have "s' = s" if "CHR '':'' \<in> set h"
  proof (cases "atoi s")
    case None
    then show ?thesis by (simp add: s'_def)
  next
    case (Some n)
    then have "plain_chars s" by (rule atoi_chars)
    with Some shape that show ?thesis by (auto simp: s'_def plain_chars_def Cons_eq_append_conv)
  qed
  with hp shape show ?thesis
    by (intro that [of "if h = [] then ''127.0.0.1'' else h" p])
       (auto simp: plain_chars_def split: if_splits)
qed

end
