(* ===== verification/Ids.thy ===== *)
theory Ids
  imports Base32 HostPort "HOL-Library.List_Lexorder"
begin

text \<open>
  Package id: the 32-byte client identifier (id/id.go), its text form in both directions,
  and the identifier of a TLS peer (id/ptls.go). SHA-256 is an argument.
\<close>

section \<open>The type ID\<close>

typedef ID = "{bs :: byte list. length bs = 32}"
  morphisms id_bytes Abs_ID
  by (rule exI [of _ "replicate 32 0"]) simp

setup_lifting type_definition_ID

lemma id_bytes_length [simp]: "length (id_bytes i) = 32"
  using id_bytes [of i] by simp

lemma ID_eqI: "id_bytes i = id_bytes j \<Longrightarrow> i = j"
  by (simp add: id_bytes_inject)

text \<open>The zero value of the array type, and Go's \<open>copy\<close> of a slice over an array.\<close>

definition zero_ID :: ID where
  "zero_ID = Abs_ID (replicate 32 0)"

definition copy_ID :: "ID \<Rightarrow> byte list \<Rightarrow> ID" where
  "copy_ID old src = Abs_ID (take 32 src @ drop (length src) (id_bytes old))"

lemma id_bytes_copy [simp, code abstract]:
  "id_bytes (copy_ID i src) = take 32 src @ drop (length src) (id_bytes i)"
  by (simp add: copy_ID_def Abs_ID_inverse)

lemma id_bytes_zero [simp, code abstract]: "id_bytes zero_ID = replicate 32 0"
  by (simp add: zero_ID_def Abs_ID_inverse)

lemma copy_ID_full: "length src = 32 \<Longrightarrow> id_bytes (copy_ID i src) = src"
  by simp

lemma copy_ID_bytes [simp]: "copy_ID j (id_bytes i) = i"
  by (rule ID_eqI) simp

instantiation ID :: linorder
begin

definition less_eq_ID :: "ID \<Rightarrow> ID \<Rightarrow> bool" where
  "less_eq_ID i j \<longleftrightarrow> id_bytes i \<le> id_bytes j"

definition less_ID :: "ID \<Rightarrow> ID \<Rightarrow> bool" where
  "less_ID i j \<longleftrightarrow> id_bytes i < id_bytes j"

instance
  by standard (auto simp: less_eq_ID_def less_ID_def less_le_not_le intro: ID_eqI)

end

instantiation ID :: equal
begin

definition equal_ID :: "ID \<Rightarrow> ID \<Rightarrow> bool" where
  "equal_ID i j \<longleftrightarrow> id_bytes i = id_bytes j"

instance
  by standard (simp add: equal_ID_def id_bytes_inject)

end

section \<open>New\<close>

definition id_new :: "(byte list \<Rightarrow> byte list) \<Rightarrow> byte list \<Rightarrow> ID" where
  "id_new sha256 d = copy_ID zero_ID (sha256 d)"

lemma id_new_inject:
  assumes "length (sha256 a) = 32" "length (sha256 b) = 32"
  shows "id_new sha256 a = id_new sha256 b \<longleftrightarrow> sha256 a = sha256 b"
  using assms copy_ID_full unfolding id_new_def by metis

section \<open>Text form\<close>

text \<open>
  \<open>chunkRegex.ReplaceAllString(s, "$1-")\<close>: from the left, each run of seven characters
  without a line feed is followed by a hyphen. The regular expression counts characters,
  the model bytes: the two agree on the ASCII text \<open>String\<close> passes.
\<close>

function chunk_sevens :: "string \<Rightarrow> string" where
  "chunk_sevens s =
     (if 7 \<le> length s \<and> CHR 0x0A \<notin> set (take 7 s)
      then take 7 s @ CHR ''-'' # chunk_sevens (drop 7 s)
      else case s of [] \<Rightarrow> [] | c # cs \<Rightarrow> c # chunk_sevens cs)"
  by pat_completeness auto
termination
  by (relation "measure length") auto

declare chunk_sevens.simps [simp del]

definition chunkify :: "string \<Rightarrow> string" where
  "chunkify s = trim_byte CHR ''-'' (chunk_sevens s)"

definition unchunkify :: "string \<Rightarrow> string" where
  "unchunkify s = remove_byte CHR '' '' (remove_byte CHR ''-'' s)"

definition untypeoify :: "string \<Rightarrow> string" where
  "untypeoify s =
     replace_byte CHR ''8'' CHR ''B''
       (replace_byte CHR ''1'' CHR ''I'' (replace_byte CHR ''0'' CHR ''O'' s))"

definition id_string :: "ID \<Rightarrow> string" where
  "id_string i = chunkify (trim_byte CHR ''='' (b32_encode (id_bytes i)))"

datatype id_error = IncorrectLength | CorruptInput

text \<open>
  \<open>UnmarshalText\<close> on the identifier \<open>i\<close>: the result is the new value of the array. A
  decoded text of fewer than 32 bytes overwrites only the front of it.
\<close>

definition unmarshal_text :: "(string \<Rightarrow> string) \<Rightarrow> ID \<Rightarrow> string \<Rightarrow> id_error + ID" where
  "unmarshal_text uni i bs =
     (let t = trim_byte CHR ''='' bs;
          t = to_upper uni t;
          t = untypeoify t;
          t = unchunkify t
      in if length t \<noteq> 52 then Inl IncorrectLength
         else case b32_decode (t @ ''===='') of
                None \<Rightarrow> Inl CorruptInput
              | Some dec \<Rightarrow> Inr (copy_ID i dec))"

section \<open>PeerID\<close>

datatype peer_error = HandshakeFailed string | ImproperCertsNumber nat

text \<open>The outcome of the TLS handshake and the peer's raw certificates are arguments.\<close>

definition peer_id :: "(byte list \<Rightarrow> byte list) \<Rightarrow> string option \<Rightarrow> byte list list \<Rightarrow> peer_error + ID" where
  "peer_id sha256 handshake certs =
     (case handshake of
        Some err \<Rightarrow> Inl (HandshakeFailed err)
      | None \<Rightarrow>
          if length certs \<noteq> 1 then Inl (ImproperCertsNumber (length certs))
          else Inr (id_new sha256 (certs ! 0)))"

section \<open>Chunking\<close>

lemma chunk_sevens_Nil: "chunk_sevens [] = []"
  by (simp add: chunk_sevens.simps)

lemma chunk_sevens_full:
  "\<lbrakk>7 \<le> length s; CHR 0x0A \<notin> set (take 7 s)\<rbrakk> \<Longrightarrow>
     chunk_sevens s = take 7 s @ CHR ''-'' # chunk_sevens (drop 7 s)"
  by (subst chunk_sevens.simps [of s]) simp

lemma chunk_sevens_step:
  "\<not> (7 \<le> length (c # cs) \<and> CHR 0x0A \<notin> set (take 7 (c # cs))) \<Longrightarrow>
     chunk_sevens (c # cs) = c # chunk_sevens cs"
  by (subst chunk_sevens.simps [of "c # cs"]) auto

lemma chunk_sevens_cases [case_names nil full step]:
  assumes "P []"
    and "\<And>s. \<lbrakk>chunk_sevens s = take 7 s @ CHR ''-'' # chunk_sevens (drop 7 s); P (drop 7 s)\<rbrakk> \<Longrightarrow> P s"
    and "\<And>c cs. \<lbrakk>chunk_sevens (c # cs) = c # chunk_sevens cs; P cs\<rbrakk> \<Longrightarrow> P (c # cs)"
  shows "P s"
proof (induction s rule: length_induct)
  case (1 s)
  show ?case
  proof (cases "7 \<le> length s \<and> CHR 0x0A \<notin> set (take 7 s)")
    case True
    with 1 have "P (drop 7 s)" by auto
    with True show ?thesis by (auto intro: assms(2) [OF chunk_sevens_full])
  next
    case False
    show ?thesis
    proof (cases s)
      case Nil
      with assms(1) show ?thesis by simp
    next
      case (Cons c cs)
      with 1 have "P cs" by auto
      with False Cons show ?thesis
        using assms(3) [OF chunk_sevens_step] by metis
    qed
  qed
qed

lemma chunk_sevens_group:
  "\<lbrakk>length a = 7; CHR 0x0A \<notin> set a\<rbrakk> \<Longrightarrow> chunk_sevens (a @ t) = a @ CHR ''-'' # chunk_sevens t"
  by (subst chunk_sevens_full) simp_all

lemma chunk_sevens_short: "length s < 7 \<Longrightarrow> chunk_sevens s = s"
  by (induction s) (simp_all add: chunk_sevens_Nil chunk_sevens_step)

lemma remove_hyphen_chunk_sevens:
  "remove_byte CHR ''-'' (chunk_sevens s) = remove_byte CHR ''-'' s"
proof (induction s rule: chunk_sevens_cases)
  case nil
  show ?case by (simp add: chunk_sevens_Nil)
next
  case (full s)
  have hyphen: "remove_byte CHR ''-'' (CHR ''-'' # t) = remove_byte CHR ''-'' t" for t
    by (simp add: remove_byte_def)
  have "remove_byte CHR ''-'' (take 7 s @ drop 7 s)
      = remove_byte CHR ''-'' (take 7 s) @ remove_byte CHR ''-'' (drop 7 s)"
    by (rule remove_byte_append)
  then show ?case
    using full(2) by (simp only: full(1) remove_byte_append hyphen append_take_drop_id)
next
  case (step c cs)
  then show ?case by (simp add: remove_byte_def)
qed

lemma chunk_sevens_chars: "c \<in> set (chunk_sevens s) \<Longrightarrow> c = CHR ''-'' \<or> c \<in> set s"
proof (induction s rule: chunk_sevens_cases)
  case nil
  then show ?case by (simp add: chunk_sevens_Nil)
next
  case (full s)
  then show ?case by (auto dest: in_set_takeD in_set_dropD)
next
  case (step d ds)
  then show ?case by auto
qed

lemma remove_hyphen_trim: "remove_byte CHR ''-'' (trim_byte CHR ''-'' s) = remove_byte CHR ''-'' s"
proof -
  have drop: "filter (\<lambda>x. x \<noteq> c) (dropWhile (\<lambda>x. x = c) t) = filter (\<lambda>x. x \<noteq> c) t" for c and t :: string
    by (induction t) auto
  have "filter (\<lambda>x. x \<noteq> c) (rev t) = rev (filter (\<lambda>x. x \<noteq> c) t)" for c and t :: string
    by (simp add: rev_filter)
  with drop show ?thesis by (simp add: remove_byte_def trim_byte_def flip: rev_filter)
qed

lemma trim_byte_chars: "c \<in> set (trim_byte a s) \<Longrightarrow> c \<in> set s"
  by (auto simp: trim_byte_def dest!: set_dropWhileD)

lemma chunkify_chars: "c \<in> set (chunkify s) \<Longrightarrow> c = CHR ''-'' \<or> c \<in> set s"
  by (auto simp: chunkify_def dest: trim_byte_chars chunk_sevens_chars)

lemma unchunkify_chunkify:
  "CHR ''-'' \<notin> set s \<Longrightarrow> CHR '' '' \<notin> set s \<Longrightarrow> unchunkify (chunkify s) = s"
  by (simp add: unchunkify_def chunkify_def remove_hyphen_trim remove_hyphen_chunk_sevens remove_byte_id)

section \<open>Round trip\<close>

definition id_letters :: "ID \<Rightarrow> string" where
  "id_letters i = take 52 (b32_encode (id_bytes i))"

lemma b32_encode_32:
  assumes "length bs = 32"
  obtains t where "b32_encode bs = t @ ''===='' " "length t = 52" "set t \<subseteq> set b32_alphabet"
proof -
  have step: "\<exists>t. b32_encode xs = t @ replicate 4 CHR ''='' \<and> length t = 8 * n + 4
      \<and> set t \<subseteq> set b32_alphabet"
    if "length xs = 5 * n + 2" for n xs
    using that
  proof (induction n arbitrary: xs)
    case 0
    then obtain a b where "xs = [a, b]" by (auto simp: length_Suc_conv eval_nat_numeral)
    then show ?case
      by (intro exI [of _ "take 4 (b32_group a b 0 0 0)"])
         (auto dest!: in_set_takeD b32_group_alphabet)
  next
    case (Suc n)
    then have "length xs = Suc (Suc (Suc (Suc (Suc (5 * n + 2)))))" by simp
    then obtain a b c d e ys where xs: "xs = a # b # c # d # e # ys" "length ys = 5 * n + 2"
      by (auto simp only: length_Suc_conv)
    with Suc.IH obtain t where "b32_encode ys = t @ replicate 4 CHR ''=''" "length t = 8 * n + 4"
        "set t \<subseteq> set b32_alphabet" by blast
    with xs show ?case
      by (intro exI [of _ "b32_group a b c d e @ t"]) (auto dest: b32_group_alphabet)
  qed
  from step [of bs 6] assms that show ?thesis by (auto simp: eval_nat_numeral)
qed

lemma id_letters:
  shows "b32_encode (id_bytes i) = id_letters i @ ''===='' "
    and "length (id_letters i) = 52" and "set (id_letters i) \<subseteq> set b32_alphabet"
proof -
  obtain t where "b32_encode (id_bytes i) = t @ ''===='' " "length t = 52" "set t \<subseteq> set b32_alphabet"
    using b32_encode_32 [OF id_bytes_length] .
  then show "b32_encode (id_bytes i) = id_letters i @ ''===='' "
    "length (id_letters i) = 52" "set (id_letters i) \<subseteq> set b32_alphabet"
    by (simp_all add: id_letters_def)
qed

lemma b32_alphabet_chars:
  "c \<in> set b32_alphabet \<Longrightarrow> is_upper_or_caseless c \<and> plain_chars [c] \<and>
     c \<noteq> CHR ''='' \<and> c \<noteq> CHR ''-'' \<and> c \<noteq> CHR '' '' \<and>
     c \<noteq> CHR ''0'' \<and> c \<noteq> CHR ''1'' \<and> c \<noteq> CHR ''8''"
  by (auto simp: b32_alphabet_def is_upper_or_caseless_def is_ascii_def char_between_def plain_chars_def)

lemma id_string_letters: "id_string i = chunkify (id_letters i)"
proof -
  have "id_letters i \<noteq> []" using id_letters(2) [of i] by auto
  moreover from this have "hd (id_letters i) \<noteq> CHR ''=''" "last (id_letters i) \<noteq> CHR ''=''"
    using id_letters(3) [of i] b32_alphabet_chars by (meson hd_in_set last_in_set subsetD)+
  ultimately show ?thesis
    using trim_byte_padding [of "id_letters i" "CHR ''=''" 4]
    by (simp add: id_string_def id_letters(1) eval_nat_numeral)
qed

lemma id_string_chars: "c \<in> set (id_string i) \<Longrightarrow> c = CHR ''-'' \<or> c \<in> set b32_alphabet"
  using id_letters(3) [of i] by (auto simp: id_string_letters dest: chunkify_chars)

lemma id_string_plain: "plain_chars (id_string i)"
  using id_string_chars [of _ i] b32_alphabet_chars
  by (fastforce simp: plain_chars_def)

lemma unchunkify_id_string: "unchunkify (id_string i) = id_letters i"
  unfolding id_string_letters
  by (rule unchunkify_chunkify) (use id_letters(3) [of i] b32_alphabet_chars in blast)+

text \<open>What \<open>UnmarshalText\<close> reduces a text to before it decodes it.\<close>

definition id_canonical :: "(string \<Rightarrow> string) \<Rightarrow> string \<Rightarrow> string" where
  "id_canonical uni s = unchunkify (untypeoify (to_upper uni (trim_byte CHR ''='' s)))"

lemma unmarshal_text_canonical:
  assumes "id_canonical uni s = id_letters i"
  shows "unmarshal_text uni j s = Inr i"
  using assms b32_decode_encode [of "id_bytes i"]
  by (simp add: unmarshal_text_def id_canonical_def Let_def id_letters)

text \<open>
  How a transcribed identifier may differ from the canonical text, character by
  character: letters in lower case, and the digits people confuse with letters.
\<close>

definition typo_of :: "char \<Rightarrow> char \<Rightarrow> bool" where
  "typo_of c d \<longleftrightarrow> d = c \<or> d = ascii_lower c \<or>
     (c, d) \<in> {(CHR ''O'', CHR ''0''), (CHR ''I'', CHR ''1''), (CHR ''B'', CHR ''8'')}"

definition fix_typo :: "char \<Rightarrow> char" where
  "fix_typo d = (let u = ascii_upper d in
     if u = CHR ''0'' then CHR ''O'' else if u = CHR ''1'' then CHR ''I''
     else if u = CHR ''8'' then CHR ''B'' else u)"

lemma fix_typo_letters:
  "\<forall>c \<in> set (CHR ''-'' # b32_alphabet). fix_typo c = c \<and> fix_typo (ascii_lower c) = c \<and>
     is_ascii c \<and> is_ascii (ascii_lower c) \<and> c \<noteq> CHR ''='' \<and> ascii_lower c \<noteq> CHR ''=''"
  by code_simp

lemma fix_typo_digits:
  "fix_typo CHR ''0'' = CHR ''O''" "fix_typo CHR ''1'' = CHR ''I''" "fix_typo CHR ''8'' = CHR ''B''"
  "is_ascii CHR ''0''" "is_ascii CHR ''1''" "is_ascii CHR ''8''"
  by code_simp+

lemma fix_typo_of:
  assumes "typo_of c d" and "c = CHR ''-'' \<or> c \<in> set b32_alphabet"
  shows "fix_typo d = c \<and> is_ascii d \<and> d \<noteq> CHR ''=''"
  using assms bspec [OF fix_typo_letters, of c] by (auto simp: typo_of_def fix_typo_digits)

lemma untypeoify_upper: "untypeoify (map ascii_upper s) = map fix_typo s"
  by (simp add: untypeoify_def replace_byte_def fix_typo_def Let_def)

lemma trim_byte_absent: "c \<notin> set s \<Longrightarrow> trim_byte c s = s"
  by (rule trim_byte_id) (auto dest: hd_in_set last_in_set)

lemma id_canonical_letters:
  assumes "set s \<subseteq> set b32_alphabet"
  shows "id_canonical uni s = s"
proof -
  have "\<forall>c \<in> set s. is_upper_or_caseless c" "CHR ''='' \<notin> set s" "CHR ''-'' \<notin> set s"
    "CHR '' '' \<notin> set s" "CHR ''0'' \<notin> set s" "CHR ''1'' \<notin> set s" "CHR ''8'' \<notin> set s"
    using assms b32_alphabet_chars by blast+
  then show ?thesis
    by (simp add: id_canonical_def unchunkify_def untypeoify_def trim_byte_absent to_upper_id
        replace_byte_id remove_byte_id)
qed

lemma id_canonical_typos:
  assumes "list_all2 typo_of (id_string i) s"
  shows "id_canonical uni s = id_letters i"
proof -
  have each: "fix_typo (s ! k) = id_string i ! k \<and> is_ascii (s ! k) \<and> s ! k \<noteq> CHR ''=''"
    if "k < length s" for k
    using assms that fix_typo_of id_string_chars [of "id_string i ! k" i]
    by (metis list_all2_conv_all_nth nth_mem)
  then have "CHR ''='' \<notin> set s" "\<forall>c \<in> set s. is_ascii c"
    by (auto simp: in_set_conv_nth)
  moreover have "map fix_typo s = id_string i"
    using assms each by (auto intro!: nth_equalityI simp: list_all2_lengthD)
  ultimately show ?thesis
    by (simp add: id_canonical_def trim_byte_absent to_upper_def untypeoify_upper
        unchunkify_id_string)
qed

text \<open>
  C24: Reading back the text form of a client identifier gives that identifier, whatever
  the array held before, for every ID and also for a transcription of the text in which
  any letters are in lower case and any O, I, B are mistyped as 0, 1, 8.
\<close>

theorem id_text_round_trip:
  assumes "list_all2 typo_of (id_string i) s"
  shows "unmarshal_text uni j s = Inr i"
  using assms by (intro unmarshal_text_canonical id_canonical_typos)

theorem id_text_round_trip_witness:
  "list_all2 typo_of (id_string zero_ID) (map ascii_lower (id_string zero_ID)) \<and>
   unmarshal_text id (copy_ID zero_ID [1, 2, 3]) (map ascii_lower (id_string zero_ID)) = Inr zero_ID"
proof -
  have "list_all2 typo_of (id_string zero_ID) (map ascii_lower (id_string zero_ID))"
    by (simp add: list.rel_map typo_of_def list.rel_refl)
  then show ?thesis using id_text_round_trip by blast
qed

lemma id_string_unmarshal: "unmarshal_text uni j (id_string i) = Inr i"
  by (intro unmarshal_text_canonical id_canonical_typos) (simp add: typo_of_def list.rel_refl)

interpretation id_text: codec "\<lambda>_. True" id_string
    "\<lambda>s. case unmarshal_text id zero_ID s of Inl _ \<Rightarrow> None | Inr i \<Rightarrow> Some i"
  by unfold_locales (simp add: id_string_unmarshal)

section \<open>What UnmarshalText accepts\<close>

lemma b32_char_surj: "set s \<subseteq> set b32_alphabet \<Longrightarrow> \<exists>qs. s = map b32_char qs \<and> (\<forall>q \<in> set qs. unat q < 32)"
proof (induction s)
  case Nil
  then show ?case by simp
next
  case (Cons c s)
  then obtain qs where qs: "s = map b32_char qs" "\<forall>q \<in> set qs. unat q < 32" by auto
  from Cons.prems obtain k where "k < 32" "c = b32_alphabet ! k"
    by (auto simp: in_set_conv_nth)
  then have "c = b32_char (of_nat k) \<and> unat (of_nat k :: byte) < 32"
    by (simp add: b32_char_def unat_of_nat)
  with qs show ?case by (intro exI [of _ "of_nat k # qs"]) auto
qed

lemma b32_decode_raw_letters:
  "\<lbrakk>length qs = 8 * n + 4; \<forall>q \<in> set qs. unat q < 32\<rbrakk> \<Longrightarrow>
     \<exists>bs. b32_decode_raw (map b32_char qs @ ''==='' @ ''='') = Some bs \<and> length bs = 5 * n + 2"
proof (induction n arbitrary: qs)
  case 0
  then have "b32_quantum [] (map b32_char qs @ replicate (8 - 4) CHR ''='')
      = Some (qs, replicate (7 - 4) CHR ''='', True)"
    using b32_quantum_padded [of "[]" qs 4] by simp
  with 0 show ?case
    by (subst b32_decode_raw.simps) (simp add: eval_nat_numeral b32_pack_def)
next
  case (Suc n)
  let ?rest = "map b32_char (drop 8 qs) @ ''==='' @ ''=''"
  have small: "\<forall>q \<in> set (take 8 qs). unat q < 32" "\<forall>q \<in> set (drop 8 qs). unat q < 32"
    using Suc.prems by (auto dest: in_set_takeD in_set_dropD)
  have "length (drop 8 qs) = 8 * n + 4" using Suc.prems by simp
  then obtain bs where bs: "b32_decode_raw ?rest = Some bs" "length bs = 5 * n + 2"
    using Suc.IH [of "drop 8 qs"] small by blast
  have "b32_quantum [] (map b32_char (take 8 qs) @ ?rest) = Some (take 8 qs, ?rest, False)"
    using b32_quantum_full [of "[]" "take 8 qs" ?rest] small Suc.prems by simp
  moreover have "map b32_char qs = map b32_char (take 8 qs) @ map b32_char (drop 8 qs)"
    by (simp flip: map_append)
  ultimately show ?case
    using bs Suc.prems
    by (subst b32_decode_raw.simps) (auto simp: b32_pack_def)
qed

text \<open>
  Every text of 52 letters of the base32 alphabet is accepted, and it determines all
  32 bytes: nothing of the array's old contents survives.
\<close>

theorem unmarshal_text_letters:
  assumes "length s = 52" and "set s \<subseteq> set b32_alphabet"
  shows "\<exists>i. \<forall>j. unmarshal_text uni j s = Inr i"
proof -
  from assms(2) obtain qs where qs: "s = map b32_char qs" "\<forall>q \<in> set qs. unat q < 32"
    using b32_char_surj by blast
  with assms(1) b32_decode_raw_letters [of qs 6]
  obtain bs where bs: "b32_decode_raw (s @ ''===='') = Some bs" "length bs = 32" by auto
  have plain: "c \<noteq> CHR 0x0A \<and> c \<noteq> CHR 0x0D" if "c \<in> set (s @ ''====='')" for c
    using that assms(2) b32_alphabet_no_special by auto
  then have "b32_decode (s @ ''===='') = Some bs"
    using bs(1) by (simp add: b32_decode_def filter_id)
  moreover have "id_canonical uni s = s" using assms(2) by (rule id_canonical_letters)
  ultimately have "unmarshal_text uni j s = Inr (copy_ID j bs)" for j
    using assms(1) by (simp add: unmarshal_text_def id_canonical_def Let_def)
  moreover have "copy_ID j bs = copy_ID zero_ID bs" for j
    by (rule ID_eqI) (simp add: bs(2))
  ultimately show ?thesis by metis
qed

theorem unmarshal_text_letters_witness:
  "length (replicate 52 CHR ''Q'') = 52 \<and> (\<exists>i. \<forall>j. unmarshal_text id j (replicate 52 CHR ''Q'') = Inr i)"
  using unmarshal_text_letters [of "replicate 52 CHR ''Q''" id]
  by (simp add: b32_alphabet_def)

text \<open>
  The length test does not ensure that: of a text whose 52 characters include eight
  line feeds, which the base32 decoder skips, only 27 bytes are decoded, the call still
  succeeds, and the last five bytes keep what they held before.
\<close>

theorem unmarshal_text_short:
  "unmarshal_text uni j (replicate 44 CHR ''A'' @ replicate 8 CHR 0x0A)
     = Inr (copy_ID j (replicate 27 0))"
proof -
  let ?s = "replicate 44 CHR ''A'' @ replicate 8 CHR 0x0A"
  have "id_canonical uni ?s = ?s"
    by (auto simp: id_canonical_def unchunkify_def untypeoify_def trim_byte_absent to_upper_id
        replace_byte_id remove_byte_id is_upper_or_caseless_def is_ascii_def char_between_def)
  moreover have "b32_decode (?s @ ''===='') = Some (replicate 27 0)" by code_simp
  ultimately show ?thesis by (simp add: unmarshal_text_def id_canonical_def Let_def)
qed

end
