(* ===== verification/Paths.thy ===== *)
theory Paths
  imports GoStrings
begin

text \<open>
  Splitting at a byte (package strings) and file paths (package filepath, on a Unix
  system): cleaning, the directory of a path, joining.
\<close>

section \<open>Splitting and joining\<close>

fun split_byte :: "char \<Rightarrow> string \<Rightarrow> string list" where
  "split_byte c [] = [[]]"
| "split_byte c (x # xs) =
     (if x = c then [] # split_byte c xs
      else case split_byte c xs of [] \<Rightarrow> [[x]] | y # ys \<Rightarrow> (x # y) # ys)"

fun join_byte :: "char \<Rightarrow> string list \<Rightarrow> string" where
  "join_byte c [] = []"
| "join_byte c [x] = x"
| "join_byte c (x # y # ys) = x @ c # join_byte c (y # ys)"

lemma split_byte_not_Nil [simp]: "split_byte c s \<noteq> []"
  by (induction s) (auto split: list.split)

lemma join_byte_Cons: "ys \<noteq> [] \<Longrightarrow> join_byte c (x # ys) = x @ c # join_byte c ys"
  by (cases ys) auto

lemma split_byte_join: "join_byte c (split_byte c s) = s"
proof (induction s)
  case Nil
  then show ?case by simp
next
  case (Cons x xs)
  obtain y ys where y: "split_byte c xs = y # ys" by (cases "split_byte c xs") auto
  with Cons show ?case by (cases ys) (auto simp: y)
qed

lemma split_byte_parts: "p \<in> set (split_byte c s) \<Longrightarrow> c \<notin> set p"
proof (induction s arbitrary: p)
  case Nil
  then show ?case by simp
next
  case (Cons x xs)
  obtain y ys where y: "split_byte c xs = y # ys" by (cases "split_byte c xs") auto
  with Cons.IH [of "tl p"] Cons.IH [of p] Cons.prems show ?case by (cases p) (auto split: if_splits)
qed

text \<open>The two are inverse to each other on lists of parts without the separator.\<close>

lemma split_byte_append:
  "c \<notin> set p \<Longrightarrow> split_byte c (p @ c # s) = p # split_byte c s"
  by (induction p) auto

lemma split_byte_single: "c \<notin> set p \<Longrightarrow> split_byte c p = [p]"
  by (induction p) auto

lemma join_byte_split: "\<lbrakk>ps \<noteq> []; \<forall>p \<in> set ps. c \<notin> set p\<rbrakk> \<Longrightarrow> split_byte c (join_byte c ps) = ps"
  by (induction c ps rule: join_byte.induct) (simp_all add: split_byte_append split_byte_single)

section \<open>Paths\<close>

abbreviation slash :: char where "slash \<equiv> CHR 0x2F"

definition is_abs :: "string \<Rightarrow> bool" where
  "is_abs p \<longleftrightarrow> p \<noteq> [] \<and> hd p = slash"

text \<open>One path element: empty ones and dots vanish, two dots drop the element before.\<close>

definition clean_step :: "bool \<Rightarrow> string list \<Rightarrow> string \<Rightarrow> string list" where
  "clean_step rooted stack e =
     (if e = [] \<or> e = ''.'' then stack
      else if e = ''..'' then
        (case stack of
           [] \<Rightarrow> if rooted then [] else [''..'']
         | x # rest \<Rightarrow> if x = ''..'' then ''..'' # stack else rest)
      else e # stack)"

definition path_clean :: "string \<Rightarrow> string" where
  "path_clean p =
     (let rooted = is_abs p;
          comps = rev (foldl (clean_step rooted) [] (split_byte slash p));
          body = join_byte slash comps
      in if rooted then slash # body else if comps = [] then ''.'' else body)"

definition path_dir :: "string \<Rightarrow> string" where
  "path_dir p =
     path_clean (case last_index_byte slash p of None \<Rightarrow> [] | Some i \<Rightarrow> take (i + 1) p)"

definition path_join :: "string \<Rightarrow> string \<Rightarrow> string" where
  "path_join a b =
     (if a \<noteq> [] then path_clean (a @ slash # b) else if b \<noteq> [] then path_clean b else [])"

lemma is_abs_clean: "is_abs p \<Longrightarrow> is_abs (path_clean p)"
  by (simp add: path_clean_def Let_def) (simp add: is_abs_def)

lemma is_abs_join: "is_abs a \<Longrightarrow> is_abs (path_join a b)"
  using is_abs_clean [of "a @ slash # b"] by (auto simp: path_join_def is_abs_def)

lemma is_abs_dir:
  assumes "is_abs p"
  shows "is_abs (path_dir p)"
proof -
  have "slash \<in> set p" using assms by (cases p) (auto simp: is_abs_def)
  then obtain i where i: "last_index_byte slash p = Some i"
    using last_index_byte_None [of slash p] by fastforce
  have "is_abs (take (i + 1) p)" using assms by (cases p) (auto simp: is_abs_def)
  with i show ?thesis by (simp add: path_dir_def is_abs_clean)
qed

end
