(* ===== verification/IdFormat.thy ===== *)
theory IdFormat
  imports Ids Paths
begin

text \<open>
  The shape of the text form of an identifier (id/id.go): seven groups of seven letters and
  a last group of three, separated by hyphens.
\<close>

section \<open>Groups of seven letters\<close>

fun groups :: "nat \<Rightarrow> string \<Rightarrow> string list" where
  "groups 0 s = [s]"
| "groups (Suc n) s = take 7 s # groups n (drop 7 s)"

lemma groups_not_Nil [simp]: "groups n s \<noteq> []"
  by (cases n) simp_all

lemma groups_concat: "concat (groups n s) = s"
  by (induction n s rule: groups.induct) simp_all

lemma groups_chars: "g \<in> set (groups n s) \<Longrightarrow> set g \<subseteq> set s"
  by (induction n s rule: groups.induct) (auto dest: in_set_takeD in_set_dropD)

lemma groups_length:
  "7 * n \<le> length s \<Longrightarrow> map length (groups n s) = replicate n 7 @ [length s - 7 * n]"
  by (induction n s rule: groups.induct) (auto simp: diff_mult_distrib)

lemma chunk_sevens_groups:
  "\<lbrakk>7 * n \<le> length s; length s < 7 * n + 7; CHR 0x0A \<notin> set s\<rbrakk> \<Longrightarrow>
     chunk_sevens s = join_byte CHR ''-'' (groups n s)"
proof (induction n s rule: groups.induct)
  case (1 s)
  then show ?case by (simp add: chunk_sevens_short)
next
  case (2 n s)
  have "chunk_sevens (take 7 s @ drop 7 s) = take 7 s @ CHR ''-'' # chunk_sevens (drop 7 s)"
    using 2 by (intro chunk_sevens_group) (auto dest: in_set_takeD)
  moreover have "chunk_sevens (drop 7 s) = join_byte CHR ''-'' (groups n (drop 7 s))"
    using 2 by (intro "2.IH") (auto dest: in_set_dropD)
  ultimately show ?case by (simp add: join_byte_Cons)
qed

lemma join_byte_last:
  "\<lbrakk>xs \<noteq> []; last xs \<noteq> []\<rbrakk> \<Longrightarrow> join_byte c xs \<noteq> [] \<and> last (join_byte c xs) = last (last xs)"
  by (induction xs) (auto simp: join_byte_Cons)

lemma trim_joined_groups:
  assumes "xs \<noteq> []" and "hd xs \<noteq> []" and "last xs \<noteq> []" and "\<forall>x \<in> set xs. c \<notin> set x"
  shows "trim_byte c (join_byte c xs) = join_byte c xs"
proof (rule trim_byte_id)
  have "hd (join_byte c xs) = hd (hd xs)"
    using assms(1,2) by (cases xs; cases "tl xs") auto
  moreover have "hd (hd xs) \<in> set (hd xs)" "hd xs \<in> set xs" using assms(1,2) by simp_all
  ultimately have "hd (join_byte c xs) \<noteq> c" using assms(4) by metis
  moreover have "last (last xs) \<in> set (last xs)" "last xs \<in> set xs" using assms(1,3) by simp_all
  ultimately show "join_byte c xs = [] \<or> hd (join_byte c xs) \<noteq> c \<and> last (join_byte c xs) \<noteq> c"
    using assms(4) join_byte_last [OF assms(1,3), of c] by metis
qed

lemma id_string_groups: "id_string i = join_byte CHR ''-'' (groups 7 (id_letters i))"
  and id_groups_parts: "\<forall>g \<in> set (groups 7 (id_letters i)). CHR ''-'' \<notin> set g"
proof -
  let ?l = "id_letters i"
  have l: "length ?l = 52" "CHR ''-'' \<notin> set ?l" "CHR 0x0A \<notin> set ?l"
    using id_letters(2,3) [of i] b32_alphabet_chars b32_alphabet_no_special by blast+
  show parts: "\<forall>g \<in> set (groups 7 ?l). CHR ''-'' \<notin> set g" using l(2) groups_chars by blast
  have "chunk_sevens ?l = join_byte CHR ''-'' (groups 7 ?l)"
    using l by (intro chunk_sevens_groups) simp_all
  moreover have "trim_byte CHR ''-'' (join_byte CHR ''-'' (groups 7 ?l)) = join_byte CHR ''-'' (groups 7 ?l)"
  proof (rule trim_joined_groups [OF groups_not_Nil _ _ parts])
    show "hd (groups 7 ?l) \<noteq> []" "last (groups 7 ?l) \<noteq> []" using l(1) by (auto simp: eval_nat_numeral)
  qed
  ultimately show "id_string i = join_byte CHR ''-'' (groups 7 ?l)"
    by (simp add: id_string_letters chunkify_def)
qed

text \<open>
  C18: The text form of every identifier is eight groups separated by hyphens, seven of
  seven letters and one of three, 52 letters in all, each a letter of the base32 alphabet.
\<close>

theorem id_string_format:
  "map length (split_byte CHR ''-'' (id_string i)) = [7, 7, 7, 7, 7, 7, 7, 3] \<and>
   length (id_string i) = 59 \<and> set (concat (split_byte CHR ''-'' (id_string i))) \<subseteq> set b32_alphabet"
proof -
  have parts: "split_byte CHR ''-'' (id_string i) = groups 7 (id_letters i)"
    unfolding id_string_groups by (rule join_byte_split [OF groups_not_Nil id_groups_parts])
  have len: "map length (groups 7 (id_letters i)) = [7, 7, 7, 7, 7, 7, 7, 3]"
    using groups_length [of 7 "id_letters i"] id_letters(2) [of i] by (simp add: eval_nat_numeral)
  have "length (join_byte c xs) = sum_list (map length xs) + (length xs - 1)" for c and xs :: "string list"
    by (induction c xs rule: join_byte.induct) auto
  then have "length (id_string i) = sum_list (map length (groups 7 (id_letters i)))
      + (length (map length (groups 7 (id_letters i))) - 1)"
    unfolding id_string_groups by simp
  then have "length (id_string i) = 59" unfolding len by simp
  with parts len id_letters(3) [of i] show ?thesis by (simp add: groups_concat)
qed

text \<open>
  The identifier in the usage text of the server command (cmd/server/options.go) has eight
  groups of seven letters, which is no identifier.
\<close>

lemma usage_identifier_rejected:
  "unmarshal_text id zero_ID ''YMBKT3V-ESUTZ2Z-7MRILIJ-T35FHGO-D2DHO7D-FXMGSSR-V4LBSZX-BNDONQ4''
     = Inl IncorrectLength"
  by code_simp

end
