(* ===== verification/Registry.thy ===== *)
theory Registry
  imports Ids
begin

text \<open>
  The registry (registry.go): which clients may connect, and which client owns which
  public host. Every operation holds the registry's mutex for its whole body, so it is
  one step. The shared pointer \<open>voidRegistryItem\<close> that marks a subscribed client
  without tunnels is the constructor \<open>Void\<close>; any other item is \<open>Owned\<close>.
\<close>

section \<open>State and operations\<close>

text \<open>Network listeners are numbered.\<close>

type_synonym listener = nat

record registry_item =
  Hosts :: "string list"
  Listeners :: "listener list"

datatype slot = Void | Owned registry_item

record registry =
  items :: "ID \<rightharpoonup> slot"
  hosts :: "string \<rightharpoonup> ID"

definition new_registry :: registry where
  "new_registry = \<lparr>items = Map.empty, hosts = Map.empty\<rparr>"

definition subscribe :: "ID \<Rightarrow> registry \<Rightarrow> registry" where
  "subscribe identifier r =
     (case items r identifier of
        Some _ \<Rightarrow> r
      | None \<Rightarrow> r\<lparr>items := (items r)(identifier \<mapsto> Void)\<rparr>)"

definition is_subscribed :: "registry \<Rightarrow> ID \<Rightarrow> bool" where
  "is_subscribed r identifier \<longleftrightarrow> items r identifier \<noteq> None"

definition subscriber :: "registry \<Rightarrow> string \<Rightarrow> ID option" where
  "subscriber r host_port = hosts r (trim_port host_port)"

definition slot_hosts :: "slot \<Rightarrow> string list" where
  "slot_hosts s = (case s of Void \<Rightarrow> [] | Owned i \<Rightarrow> Hosts i)"

definition unsubscribe :: "ID \<Rightarrow> registry \<Rightarrow> slot option \<times> registry" where
  "unsubscribe identifier r =
     (case items r identifier of
        None \<Rightarrow> (None, r)
      | Some i \<Rightarrow>
          (Some i, r\<lparr>hosts := map_delete_all trim_port (slot_hosts i) (hosts r),
                     items := (items r)(identifier := None)\<rparr>))"

datatype set_error = ClientNotSubscribed | OverwriteItem | HostOccupied string

definition registry_set :: "registry_item \<Rightarrow> ID \<Rightarrow> registry \<Rightarrow> set_error + registry" where
  "registry_set i identifier r =
     (case items r identifier of
        None \<Rightarrow> Inl ClientNotSubscribed
      | Some (Owned _) \<Rightarrow> Inl OverwriteItem
      | Some Void \<Rightarrow>
          (case find (\<lambda>h. hosts r (trim_port h) \<noteq> None) (Hosts i) of
             Some h \<Rightarrow> Inl (HostOccupied h)
           | None \<Rightarrow>
               Inr (r\<lparr>hosts := map_store_all trim_port (Hosts i) identifier (hosts r),
                      items := (items r)(identifier \<mapsto> Owned i)\<rparr>)))"

definition registry_clear :: "ID \<Rightarrow> registry \<Rightarrow> registry_item option \<times> registry" where
  "registry_clear identifier r =
     (case items r identifier of
        None \<Rightarrow> (None, r)
      | Some Void \<Rightarrow> (None, r)
      | Some (Owned i) \<Rightarrow>
          (Some i, r\<lparr>hosts := map_delete_all trim_port (Hosts i) (hosts r),
                     items := (items r)(identifier \<mapsto> Void)\<rparr>))"

section \<open>What a client holds\<close>

text \<open>The hosts a client's item claims, as keys of the host table.\<close>

definition item_keys :: "registry_item \<Rightarrow> string set" where
  "item_keys i = trim_port ` set (Hosts i)"

definition held :: "registry \<Rightarrow> ID \<Rightarrow> string set" where
  "held r identifier =
     (case items r identifier of Some (Owned i) \<Rightarrow> item_keys i | _ \<Rightarrow> {})"

text \<open>The host table is exactly the inverse of what the items claim.\<close>

definition registry_ok :: "registry \<Rightarrow> bool" where
  "registry_ok r \<longleftrightarrow> (\<forall>k i. hosts r k = Some i \<longleftrightarrow> k \<in> held r i)"

lemma registry_okD: "registry_ok r \<Longrightarrow> hosts r k = Some i \<longleftrightarrow> k \<in> held r i"
  by (simp add: registry_ok_def)

lemma registry_okI: "(\<And>k i. hosts r k = Some i \<longleftrightarrow> k \<in> held r i) \<Longrightarrow> registry_ok r"
  by (simp add: registry_ok_def)

lemma held_new [simp]: "held new_registry i = {}"
  by (simp add: held_def new_registry_def)

lemma held_subscribe [simp]: "held (subscribe j r) = held r"
  by (rule ext) (auto simp: held_def subscribe_def split: option.splits)

lemma held_registry_clear: "held (snd (registry_clear j r)) = (held r)(j := {})"
  by (rule ext) (auto simp: held_def registry_clear_def split: option.splits slot.splits)

lemma held_unsubscribe: "held (snd (unsubscribe j r)) = (held r)(j := {})"
  by (rule ext) (auto simp: held_def unsubscribe_def split: option.splits slot.splits)

lemma held_registry_set: "registry_set x j r = Inr r' \<Longrightarrow> held r' = (held r)(j := item_keys x)"
  by (rule ext)
     (auto simp: held_def registry_set_def split: option.splits slot.splits)

lemma registry_set_Inr:
  assumes "registry_set x j r = Inr r'"
  shows "items r j = Some Void" "k \<in> item_keys x \<Longrightarrow> hosts r k = None"
    "hosts r' k = (if k \<in> item_keys x then Some j else hosts r k)"
    "items r' = (items r)(j \<mapsto> Owned x)"
  using assms
  by (auto simp: registry_set_def item_keys_def map_store_all_apply find_None_iff
      split: option.splits slot.splits)

lemma registry_set_Inr_iff:
  "(\<exists>r'. registry_set x j r = Inr r') \<longleftrightarrow>
     items r j = Some Void \<and> (\<forall>k \<in> item_keys x. hosts r k = None)"
  by (auto simp: registry_set_def item_keys_def find_None_iff find_Some_iff
      split: option.splits slot.splits)

lemma hosts_registry_clear:
  "hosts (snd (registry_clear j r)) k = (if k \<in> held r j then None else hosts r k)"
  by (auto simp: registry_clear_def held_def item_keys_def map_delete_all_apply
      split: option.splits slot.splits)

lemma hosts_subscribe [simp]: "hosts (subscribe i r) = hosts r"
  by (simp add: subscribe_def split: option.split)

lemma hosts_unsubscribe:
  "hosts (snd (unsubscribe j r)) k = (if k \<in> held r j then None else hosts r k)"
  by (auto simp: unsubscribe_def held_def item_keys_def slot_hosts_def map_delete_all_apply
      split: option.splits slot.splits)

lemma registry_ok_new [inv_intros]: "registry_ok new_registry"
  by (simp add: registry_ok_def) (simp add: new_registry_def)

lemma registry_ok_subscribe [inv_intros]: "registry_ok r \<Longrightarrow> registry_ok (subscribe j r)"
  by (simp add: registry_ok_def)

lemma registry_ok_clear [inv_intros]:
  assumes "registry_ok r"
  shows "registry_ok (snd (registry_clear j r))"
proof (rule registry_okI)
  fix k i
  show "hosts (snd (registry_clear j r)) k = Some i \<longleftrightarrow> k \<in> held (snd (registry_clear j r)) i"
    using registry_okD [OF assms, of k i] registry_okD [OF assms, of k j]
    by (auto simp: held_registry_clear hosts_registry_clear)
qed

lemma registry_ok_unsubscribe [inv_intros]:
  assumes "registry_ok r"
  shows "registry_ok (snd (unsubscribe j r))"
proof (rule registry_okI)
  fix k i
  show "hosts (snd (unsubscribe j r)) k = Some i \<longleftrightarrow> k \<in> held (snd (unsubscribe j r)) i"
    using registry_okD [OF assms, of k i] registry_okD [OF assms, of k j]
    by (auto simp: held_unsubscribe hosts_unsubscribe)
qed

lemma registry_ok_set [inv_intros]:
  assumes ok: "registry_ok r" and set: "registry_set x j r = Inr r'"
  shows "registry_ok r'"
proof (rule registry_okI)
  fix k i
  have "held r j = {}" using registry_set_Inr(1) [OF set] by (simp add: held_def)
  moreover have "k \<in> item_keys x \<Longrightarrow> k \<notin> held r i"
    using registry_okD [OF ok, of k i] registry_set_Inr(2) [OF set, of k] by auto
  ultimately show "hosts r' k = Some i \<longleftrightarrow> k \<in> held r' i"
    using registry_okD [OF ok, of k i]
    by (auto simp: held_registry_set [OF set] registry_set_Inr(3) [OF set])
qed

section \<open>The registry as a host directory\<close>

text \<open>
  What the server relies on: a table from host keys to owners that agrees with what each
  owner holds, where an owner that holds nothing may claim free keys and an owner may
  give up all of its keys.
\<close>

locale host_directory =
  fixes ok :: "'s \<Rightarrow> bool"
    and look :: "'s \<Rightarrow> 'k \<Rightarrow> 'i option"
    and holds :: "'s \<Rightarrow> 'i \<Rightarrow> 'k set"
    and keys :: "'x \<Rightarrow> 'k set"
    and claim :: "'x \<Rightarrow> 'i \<Rightarrow> 's \<Rightarrow> 's option"
    and release :: "'i \<Rightarrow> 's \<Rightarrow> 's"
  assumes look_iff: "ok s \<Longrightarrow> look s k = Some i \<longleftrightarrow> k \<in> holds s i"
    and claim_free: "\<lbrakk>ok s; claim x i s = Some t\<rbrakk> \<Longrightarrow> holds s i = {} \<and> (\<forall>k \<in> keys x. look s k = None)"
    and claim_holds: "\<lbrakk>ok s; claim x i s = Some t\<rbrakk> \<Longrightarrow> holds t = (holds s)(i := keys x)"
    and claim_ok: "\<lbrakk>ok s; claim x i s = Some t\<rbrakk> \<Longrightarrow> ok t"
    and release_holds: "ok s \<Longrightarrow> holds (release i s) = (holds s)(i := {})"
    and release_ok: "ok s \<Longrightarrow> ok (release i s)"
begin

lemma holds_disjoint:
  assumes "ok s" "i \<noteq> j"
  shows "holds s i \<inter> holds s j = {}"
proof -
  have "False" if "k \<in> holds s i" "k \<in> holds s j" for k
    using that assms(2) look_iff [OF assms(1), of k i] look_iff [OF assms(1), of k j] by simp
  then show ?thesis by blast
qed

lemma look_claim:
  assumes "ok s" "claim x i s = Some t"
  shows "look t k = (if k \<in> keys x then Some i else look s k)"
proof (cases "k \<in> keys x")
  case True
  then show ?thesis using look_iff [OF claim_ok [OF assms]] by (simp add: claim_holds [OF assms])
next
  case False
  have "look t k = Some j \<longleftrightarrow> look s k = Some j" for j
    using False claim_free [OF assms]
    by (simp add: look_iff [OF assms(1)] look_iff [OF claim_ok [OF assms]] claim_holds [OF assms])
  with False show ?thesis by (simp add: option_eq_by_Some)
qed

lemma look_release:
  assumes "ok s"
  shows "look (release i s) k = (if look s k = Some i then None else look s k)"
proof -
  have "look (release i s) k = Some j \<longleftrightarrow> j \<noteq> i \<and> look s k = Some j" for j
    by (simp add: look_iff [OF assms] look_iff [OF release_ok [OF assms]] release_holds [OF assms])
  then show ?thesis by (intro option_eq_by_Some) auto
qed

lemma look_claim_release:
  assumes "ok s" "claim x i s = Some t"
  shows "look (release i t) k = look s k"
proof -
  have "look s k \<noteq> Some i"
    using claim_free [OF assms] by (auto simp: look_iff [OF assms(1)])
  then show ?thesis
    using claim_free [OF assms]
    by (auto simp: look_release [OF claim_ok [OF assms]] look_claim [OF assms])
qed

lemma claim_other_kept:
  assumes "ok s" "claim x i s = Some t" "look s k = Some j"
  shows "look t k = Some j"
  using claim_free [OF assms(1,2)] assms(3) by (auto simp: look_claim [OF assms(1,2)])

end

definition claim_hosts :: "registry_item \<Rightarrow> ID \<Rightarrow> registry \<Rightarrow> registry option" where
  "claim_hosts x i r = (case registry_set x i r of Inl _ \<Rightarrow> None | Inr r' \<Rightarrow> Some r')"

lemma claim_hosts_Some: "claim_hosts x i r = Some r' \<longleftrightarrow> registry_set x i r = Inr r'"
  by (simp add: claim_hosts_def split: sum.split)

interpretation reg: host_directory registry_ok hosts held item_keys claim_hosts
    "\<lambda>i r. snd (registry_clear i r)"
proof unfold_locales
  show "hosts s k = Some i \<longleftrightarrow> k \<in> held s i" if "registry_ok s" for s k i
    using that by (simp add: registry_ok_def)
  show "held s i = {} \<and> (\<forall>k \<in> item_keys x. hosts s k = None)"
    if "registry_ok s" "claim_hosts x i s = Some t" for s x i t
    using that registry_set_Inr(1,2) by (auto simp: claim_hosts_Some held_def)
  show "held t = (held s)(i := item_keys x)"
    if "registry_ok s" "claim_hosts x i s = Some t" for s x i t
    using that by (simp add: claim_hosts_Some held_registry_set)
  show "registry_ok t" if "registry_ok s" "claim_hosts x i s = Some t" for s x i t
    using that by (auto simp: claim_hosts_Some intro: inv_intros)
  show "held (snd (registry_clear i s)) = (held s)(i := {})" if "registry_ok s" for s i
    by (rule held_registry_clear)
  show "registry_ok (snd (registry_clear i s))" if "registry_ok s" for s i
    using that by (rule inv_intros)
qed

section \<open>Reachable registries\<close>

inductive registry_step :: "registry \<Rightarrow> registry \<Rightarrow> bool" where
  step_subscribe: "registry_step r (subscribe i r)"
| step_unsubscribe: "registry_step r (snd (unsubscribe i r))"
| step_set: "registry_set x i r = Inr r' \<Longrightarrow> registry_step r r'"
| step_clear: "registry_step r (snd (registry_clear i r))"

inductive_cases registry_stepE: "registry_step r r'"

interpretation registry_runs: invariant_system "\<lambda>r. r = new_registry" registry_step registry_ok
  by unfold_locales (auto elim!: registry_stepE intro: inv_intros)

text \<open>A registry with one client and one host, used where a theorem is applied.\<close>

definition sample_item :: registry_item where
  "sample_item = \<lparr>Hosts = [''app.example.com''], Listeners = [7]\<rparr>"

definition sample_registry :: registry where
  "sample_registry = \<lparr>items = [zero_ID \<mapsto> Owned sample_item], hosts = [''app.example.com'' \<mapsto> zero_ID]\<rparr>"

lemma sample_host [simp]: "trim_port ''app.example.com'' = ''app.example.com''"
  by (simp add: trim_port_no_colon)

lemma sample_registry_set:
  "registry_set sample_item zero_ID (subscribe zero_ID new_registry) = Inr sample_registry"
  by (simp add: registry_set_def subscribe_def new_registry_def sample_item_def sample_registry_def)

lemma sample_registry_reachable: "registry_step\<^sup>*\<^sup>* new_registry sample_registry"
  by (rule rtranclp.rtrancl_into_rtrancl [OF r_into_rtranclp [of registry_step, OF step_subscribe]])
     (rule step_set [OF sample_registry_set])

lemma sample_registry_ok: "registry_ok sample_registry"
  using registry_ok_set [OF registry_ok_subscribe [OF registry_ok_new] sample_registry_set] .

text \<open>
  In every registry that any sequence of subscriptions, handshakes, disconnects and
  unsubscriptions can produce, a host resolves to a client exactly if that client's
  current item claims it; no host is claimed by two clients.
\<close>

theorem registry_consistent:
  assumes "registry_step\<^sup>*\<^sup>* new_registry r"
  shows "(\<forall>h i. subscriber r h = Some i \<longleftrightarrow>
            (\<exists>x. items r i = Some (Owned x) \<and> trim_port h \<in> trim_port ` set (Hosts x))) \<and>
         (\<forall>i j x y. i \<noteq> j \<and> items r i = Some (Owned x) \<and> items r j = Some (Owned y) \<longrightarrow>
            trim_port ` set (Hosts x) \<inter> trim_port ` set (Hosts y) = {})"
proof -
  have ok: "registry_ok r" using assms by (simp add: registry_runs.reachable_inv)
  have "subscriber r h = Some i \<longleftrightarrow>
      (\<exists>x. items r i = Some (Owned x) \<and> trim_port h \<in> item_keys x)" for h i
    using registry_okD [OF ok]
    by (auto simp: subscriber_def held_def split: option.splits slot.splits)
  moreover have "item_keys x \<inter> item_keys y = {}"
    if "i \<noteq> j" "items r i = Some (Owned x)" "items r j = Some (Owned y)" for i j x y
    using reg.holds_disjoint [OF ok that(1)] that by (simp add: held_def)
  ultimately show ?thesis unfolding item_keys_def by blast
qed

theorem registry_consistent_witness:
  "registry_step\<^sup>*\<^sup>* new_registry sample_registry \<and>
   subscriber sample_registry ''app.example.com:443'' = Some zero_ID"
proof -
  have "trim_port ''app.example.com:443'' = ''app.example.com''"
    using trim_port_plain [of "''app.example.com''" "''443''"] by (simp add: plain_chars_def)
  moreover have "items sample_registry zero_ID = Some (Owned sample_item)"
    by (simp add: sample_registry_def)
  ultimately have "\<exists>x. items sample_registry zero_ID = Some (Owned x) \<and>
      trim_port ''app.example.com:443'' \<in> trim_port ` set (Hosts x)"
    by (intro exI [of _ sample_item]) (simp add: sample_item_def)
  then show ?thesis
    using registry_consistent [OF sample_registry_reachable] sample_registry_reachable by blast
qed

text \<open>
  Registering a client's hosts succeeds exactly when the client is subscribed, has no
  item yet and none of the hosts is taken; then the new hosts resolve to the client and
  every other host resolves as before.
\<close>

theorem registry_set_correct:
  assumes "registry_ok r"
  shows "((\<exists>r'. registry_set x i r = Inr r') \<longleftrightarrow>
            items r i = Some Void \<and> (\<forall>h \<in> set (Hosts x). subscriber r h = None)) \<and>
         (\<forall>r' h. registry_set x i r = Inr r' \<longrightarrow>
            subscriber r' h = (if trim_port h \<in> item_keys x then Some i else subscriber r h))"
  using registry_set_Inr_iff [of x i r] reg.look_claim [OF assms, of x i]
  by (auto simp: subscriber_def item_keys_def claim_hosts_Some)

theorem registry_set_correct_witness:
  "registry_ok sample_registry \<and>
   (\<nexists>r'. registry_set sample_item zero_ID sample_registry = Inr r')"
  using registry_set_correct [OF sample_registry_ok, of sample_item zero_ID] sample_registry_ok
  by (simp add: sample_registry_def)

text \<open>
  When a client goes away its hosts stop resolving at once, the hosts of all other
  clients are untouched, the client stays subscribed, and it can register the same hosts
  again, which restores every route.
\<close>

theorem registry_clear_correct:
  assumes "registry_ok r" and "items r i = Some (Owned x)"
  shows "fst (registry_clear i r) = Some x \<and>
    is_subscribed (snd (registry_clear i r)) i \<and>
    (\<forall>h. subscriber (snd (registry_clear i r)) h
           = (if subscriber r h = Some i then None else subscriber r h)) \<and>
    (\<exists>r'. registry_set x i (snd (registry_clear i r)) = Inr r' \<and>
          (\<forall>h. subscriber r' h = subscriber r h))"
proof -
  let ?r = "snd (registry_clear i r)"
  have look: "hosts ?r k = (if hosts r k = Some i then None else hosts r k)" for k
    using reg.look_release [OF assms(1), of i k] .
  have ok: "registry_ok ?r" using assms(1) by (rule inv_intros)
  have keys: "k \<in> item_keys x \<longleftrightarrow> hosts r k = Some i" for k
    using registry_okD [OF assms(1), of k i] assms(2) by (simp add: held_def)
  have "items ?r i = Some Void" using assms(2) by (simp add: registry_clear_def)
  then obtain r' where r': "registry_set x i ?r = Inr r'"
    using registry_set_Inr_iff [of x i ?r] look keys by auto
  then have "hosts r' k = hosts r k" for k
    using reg.look_claim [OF ok, of x i r' k] look keys by (simp add: claim_hosts_Some)
  with r' look show ?thesis
    using assms(2) by (auto simp: subscriber_def is_subscribed_def registry_clear_def)
qed

theorem registry_clear_correct_witness:
  "items sample_registry zero_ID = Some (Owned sample_item) \<and>
   fst (registry_clear zero_ID sample_registry) = Some sample_item"
proof -
  have "items sample_registry zero_ID = Some (Owned sample_item)" by (simp add: sample_registry_def)
  then show ?thesis using registry_clear_correct [OF sample_registry_ok] by blast
qed

end
