(* ===== verification/Regexps.thy ===== *)
theory Regexps
  imports GoStrings
begin

text \<open>
  The fragment of package regexp the program uses to recognise DNS labels: character
  classes, concatenation, an optional part and a bounded repetition, anchored at both
  ends. The patterns of proto/tunnel.go and ca/pki.go are values of this type, and one
  lemma says which strings a label pattern accepts.
\<close>

section \<open>Patterns and matching\<close>

datatype rx =
    Class "(char \<times> char) list"
  | Then rx rx
  | Optional rx
  | UpTo nat rx

definition in_class :: "(char \<times> char) list \<Rightarrow> char \<Rightarrow> bool" where
  "in_class rs c \<longleftrightarrow> (\<exists>(lo, hi) \<in> set rs. char_between lo hi c)"

text \<open>The suffixes that may remain after a match of a prefix, the preferred one first.\<close>

primrec up_to_rests :: "(string \<Rightarrow> string list) \<Rightarrow> nat \<Rightarrow> string \<Rightarrow> string list" where
  "up_to_rests f 0 s = [s]"
| "up_to_rests f (Suc n) s = concat (map (up_to_rests f n) (f s)) @ [s]"

primrec rx_rests :: "rx \<Rightarrow> string \<Rightarrow> string list" where
  "rx_rests (Class rs) s = (case s of [] \<Rightarrow> [] | c # cs \<Rightarrow> if in_class rs c then [cs] else [])"
| "rx_rests (Then p q) s = concat (map (rx_rests q) (rx_rests p s))"
| "rx_rests (Optional p) s = rx_rests p s @ [s]"
| "rx_rests (UpTo n p) s = up_to_rests (rx_rests p) n s"

text \<open>\<open>MatchString\<close> for a pattern written between \<open>^\<close> and \<open>$\<close>.\<close>

definition rx_match :: "rx \<Rightarrow> string \<Rightarrow> bool" where
  "rx_match p s \<longleftrightarrow> [] \<in> set (rx_rests p s)"

section \<open>Label patterns\<close>

text \<open>\<open>^[edge]([inner]{0,61}[edge])?$\<close>\<close>

definition label_rx :: "(char \<times> char) list \<Rightarrow> (char \<times> char) list \<Rightarrow> rx" where
  "label_rx edge inner =
     Then (Class edge) (Optional (Then (UpTo 61 (Class inner)) (Class edge)))"

lemma rests_class: "t \<in> set (rx_rests (Class rs) s) \<longleftrightarrow> (\<exists>c. s = c # t \<and> in_class rs c)"
  by (cases s) auto

lemma rests_up_to_class:
  "t \<in> set (up_to_rests (rx_rests (Class rs)) n s) \<longleftrightarrow>
     (\<exists>m. s = m @ t \<and> length m \<le> n \<and> list_all (in_class rs) m)"
proof (induction n arbitrary: s)
  case 0
  then show ?case by auto
next
  case (Suc n)
  have "t \<in> set (up_to_rests (rx_rests (Class rs)) (Suc n) s) \<longleftrightarrow> t = s \<or>
      (\<exists>c u m. s = c # u \<and> in_class rs c \<and> u = m @ t \<and> length m \<le> n \<and> list_all (in_class rs) m)"
    by (cases s) (auto simp: Suc.IH)
  also have "\<dots> \<longleftrightarrow> (\<exists>m. s = m @ t \<and> length m \<le> Suc n \<and> list_all (in_class rs) m)" (is "?l \<longleftrightarrow> ?r")
  proof
    assume ?l
    then show ?r
    proof (elim disjE exE conjE)
      fix c u m
      assume "s = c # u" "in_class rs c" "u = m @ t" "length m \<le> n" "list_all (in_class rs) m"
      then show ?r by (intro exI [of _ "c # m"]) simp
    qed simp
  next
    assume ?r
    then obtain m where "s = m @ t" "length m \<le> Suc n" "list_all (in_class rs) m" by blast
    then show ?l by (cases m) auto
  qed
  finally show ?case .
qed

lemma rx_match_label:
  "rx_match (label_rx edge inner) s \<longleftrightarrow>
     (\<exists>c. s = [c] \<and> in_class edge c) \<or>
     (\<exists>c m d. s = c # m @ [d] \<and> length m \<le> 61 \<and> in_class edge c \<and>
        list_all (in_class inner) m \<and> in_class edge d)"
proof -
  have tail: "[] \<in> set (rx_rests (Optional (Then (UpTo 61 (Class inner)) (Class edge))) u) \<longleftrightarrow>
      u = [] \<or> (\<exists>m d. u = m @ [d] \<and> length m \<le> 61 \<and> list_all (in_class inner) m \<and> in_class edge d)"
    for u
    using rests_up_to_class [of _ inner 61 u] by (auto simp: rests_class simp del: rx_rests.simps(1))
  have "rx_match (label_rx edge inner) s \<longleftrightarrow>
      (\<exists>c u. s = c # u \<and> in_class edge c \<and>
        [] \<in> set (rx_rests (Optional (Then (UpTo 61 (Class inner)) (Class edge))) u))"
    unfolding rx_match_def label_rx_def
    by (auto simp: rests_class simp del: rx_rests.simps(1) rx_rests.simps(3))
  then show ?thesis unfolding tail by auto
qed

text \<open>
  The reading of such a pattern as a DNS label: 1 to 63 characters of the inner class,
  with no hyphen at either end. It applies where the edge class is the inner class
  without the hyphen.
\<close>

definition is_label :: "(char \<Rightarrow> bool) \<Rightarrow> string \<Rightarrow> bool" where
  "is_label ok s \<longleftrightarrow> s \<noteq> [] \<and> length s \<le> 63 \<and> list_all ok s \<and>
     hd s \<noteq> CHR ''-'' \<and> last s \<noteq> CHR ''-''"

lemma rx_match_label_iff:
  assumes edge: "\<And>c. in_class edge c \<longleftrightarrow> in_class inner c \<and> c \<noteq> CHR ''-''"
  shows "rx_match (label_rx edge inner) s \<longleftrightarrow> is_label (in_class inner) s"
proof
  assume "rx_match (label_rx edge inner) s"
  then consider (one) c where "s = [c]" "in_class edge c"
    | (more) c m d where "s = c # m @ [d]" "length m \<le> 61" "in_class edge c"
        "list_all (in_class inner) m" "in_class edge d"
    unfolding rx_match_label by blast
  then show "is_label (in_class inner) s"
  proof cases
    case one
    then show ?thesis by (simp add: is_label_def edge)
  next
    case more
    then show ?thesis by (simp add: is_label_def edge)
  qed
next
  assume lab: "is_label (in_class inner) s"
  show "rx_match (label_rx edge inner) s"
  proof (cases "length s = 1")
    case True
    then obtain c where "s = [c]" by (auto simp: length_Suc_conv)
    with lab show ?thesis by (simp add: rx_match_label is_label_def edge)
  next
    case False
    with lab obtain c u where s: "s = c # u" "u \<noteq> []" by (cases s) (auto simp: is_label_def)
    then obtain m d where "u = m @ [d]" by (metis append_butlast_last_id)
    with s lab show ?thesis
      unfolding rx_match_label
      by (intro disjI2 exI [of _ c] exI [of _ m] exI [of _ d]) (simp add: is_label_def edge)
  qed
qed

end
