(* ===== verification/Proto.thy ===== *)
theory Proto
  imports Regexps
begin

text \<open>
  Package proto: the control message the server sends before it streams data
  (proto/controlmsg.go), the tunnel description a client sends in its handshake and the
  label test both sides apply to it (proto/tunnel.go). HTTP headers are maps from
  canonical names to value lists, as in net/http.
\<close>

section \<open>HTTP headers\<close>

type_synonym header = "string \<rightharpoonup> string list"

definition is_token_char :: "char \<Rightarrow> bool" where
  "is_token_char c \<longleftrightarrow> char_between CHR ''a'' CHR ''z'' c \<or> char_between CHR ''A'' CHR ''Z'' c \<or>
     char_between CHR ''0'' CHR ''9'' c \<or> c \<in> set ''!#$%&*+-.^_`|~'' \<or> c = CHR 0x27"

fun canonical_from :: "bool \<Rightarrow> string \<Rightarrow> string" where
  "canonical_from up [] = []"
| "canonical_from up (c # cs) =
     (if up then ascii_upper c else ascii_lower c) # canonical_from (c = CHR ''-'') cs"

definition canonical_key :: "string \<Rightarrow> string" where
  "canonical_key k = (if k \<noteq> [] \<and> list_all is_token_char k then canonical_from True k else k)"

definition header_set :: "string \<Rightarrow> string \<Rightarrow> header \<Rightarrow> header" where
  "header_set k v h = h(canonical_key k \<mapsto> [v])"

definition header_get :: "header \<Rightarrow> string \<Rightarrow> string" where
  "header_get h k = (case h (canonical_key k) of Some (v # _) \<Rightarrow> v | _ \<Rightarrow> [])"

definition HeaderError :: string where "HeaderError = ''X-Error''"
definition HeaderAction :: string where "HeaderAction = ''X-Action''"
definition HeaderForwardedHost :: string where "HeaderForwardedHost = ''X-Forwarded-Host''"
definition HeaderForwardedProto :: string where "HeaderForwardedProto = ''X-Forwarded-Proto''"
definition HeaderTunnelInfo :: string where "HeaderTunnelInfo = ''X-Tunnel-Info''"

definition ActionProxy :: string where "ActionProxy = ''proxy''"

definition TCP :: string where "TCP = ''tcp''"
definition TCP4 :: string where "TCP4 = ''tcp4''"
definition TCP6 :: string where "TCP6 = ''tcp6''"
definition HTTP :: string where "HTTP = ''http''"

lemmas header_names = HeaderError_def HeaderAction_def HeaderForwardedHost_def
  HeaderForwardedProto_def HeaderTunnelInfo_def
lemmas protocol_names = TCP_def TCP4_def TCP6_def HTTP_def

lemma canonical_header_names [simp]:
  "canonical_key HeaderError = HeaderError" "canonical_key HeaderAction = HeaderAction"
  "canonical_key HeaderForwardedHost = HeaderForwardedHost"
  "canonical_key HeaderForwardedProto = HeaderForwardedProto"
  "canonical_key HeaderTunnelInfo = HeaderTunnelInfo"
  by code_simp+

lemma header_names_distinct [simp]:
  "distinct [HeaderError, HeaderAction, HeaderForwardedHost, HeaderForwardedProto, HeaderTunnelInfo]"
  by (simp add: header_names)

lemma header_get_set:
  "header_get (header_set k v h) k' = (if canonical_key k = canonical_key k' then v else header_get h k')"
  by (simp add: header_get_def header_set_def)

section \<open>Control messages\<close>

record control_message =
  Action :: string
  ForwardedHost :: string
  ForwardedProto :: string
  RemoteAddr :: string

text \<open>
  \<open>ReadControlMessage\<close>: the request's header and remote address; the error lists the
  missing headers in the order they are tested.
\<close>

definition read_control_message :: "header \<Rightarrow> string \<Rightarrow> string list + control_message" where
  "read_control_message h remote =
     (let msg = \<lparr>Action = header_get h HeaderAction,
                 ForwardedHost = header_get h HeaderForwardedHost,
                 ForwardedProto = header_get h HeaderForwardedProto,
                 RemoteAddr = remote\<rparr>;
          missing = (if Action msg = [] then [HeaderAction] else []) @
                    (if ForwardedHost msg = [] then [HeaderForwardedHost] else []) @
                    (if ForwardedProto msg = [] then [HeaderForwardedProto] else [])
      in if missing \<noteq> [] then Inl missing else Inr msg)"

definition write_to_header :: "control_message \<Rightarrow> header \<Rightarrow> header" where
  "write_to_header c h =
     header_set HeaderForwardedProto (ForwardedProto c)
       (header_set HeaderForwardedHost (ForwardedHost c)
         (header_set HeaderAction (Action c) h))"

lemma header_get_write:
  "header_get (write_to_header m h) HeaderAction = Action m"
  "header_get (write_to_header m h) HeaderForwardedHost = ForwardedHost m"
  "header_get (write_to_header m h) HeaderForwardedProto = ForwardedProto m"
  "header_get (write_to_header m h) HeaderError = header_get h HeaderError"
  "header_get (write_to_header m h) HeaderTunnelInfo = header_get h HeaderTunnelInfo"
  using header_names_distinct by (auto simp: write_to_header_def header_get_set)

text \<open>
  C30: A control message written to a header and read back is the same message, with the
  request's remote address; if a field is empty the read fails instead and names exactly
  the headers of the empty fields.
\<close>

theorem control_message_round_trip:
  "read_control_message (write_to_header m h) remote =
     (let empty = map fst (filter (\<lambda>(k, v). v = [])
            [(HeaderAction, Action m), (HeaderForwardedHost, ForwardedHost m),
             (HeaderForwardedProto, ForwardedProto m)])
      in if empty = [] then Inr (m\<lparr>RemoteAddr := remote\<rparr>) else Inl empty)"
  by (simp add: read_control_message_def header_get_write Let_def)

definition complete_message :: "control_message \<Rightarrow> bool" where
  "complete_message m \<longleftrightarrow> Action m \<noteq> [] \<and> ForwardedHost m \<noteq> [] \<and> ForwardedProto m \<noteq> []"

lemma read_written_message:
  "complete_message m \<Longrightarrow>
     read_control_message (write_to_header m h) remote = Inr (m\<lparr>RemoteAddr := remote\<rparr>)"
  by (simp add: read_control_message_def header_get_write complete_message_def)

interpretation ctrl: codec "\<lambda>m. complete_message m \<and> RemoteAddr m = []"
    "\<lambda>m. write_to_header m Map.empty"
    "\<lambda>h. case read_control_message h [] of Inl _ \<Rightarrow> None | Inr m \<Rightarrow> Some m"
  by unfold_locales (auto simp: read_written_message)

section \<open>Tunnels\<close>

record tunnel =
  Protocol :: string
  Host :: string
  Auth :: string
  Addr :: string

definition subdomain_label_rx :: rx where
  "subdomain_label_rx =
     label_rx [(CHR ''a'', CHR ''z''), (CHR ''0'', CHR ''9'')]
       [(CHR ''a'', CHR ''z''), (CHR ''0'', CHR ''9''), (CHR ''-'', CHR ''-'')]"

definition valid_subdomain_label :: "string \<Rightarrow> bool" where
  "valid_subdomain_label s \<longleftrightarrow> rx_match subdomain_label_rx s"

definition label_char :: "char \<Rightarrow> bool" where
  "label_char c \<longleftrightarrow> char_between CHR ''a'' CHR ''z'' c \<or> char_between CHR ''0'' CHR ''9'' c \<or> c = CHR ''-''"

text \<open>
  The regular expression for a subdomain accepts exactly the DNS labels: 1 to 63
  lower case letters, digits and hyphens, with no hyphen first or last.
\<close>

theorem valid_subdomain_label_iff:
  "valid_subdomain_label s \<longleftrightarrow>
     1 \<le> length s \<and> length s \<le> 63 \<and> list_all label_char s \<and>
     hd s \<noteq> CHR ''-'' \<and> last s \<noteq> CHR ''-''"
proof -
  let ?edge = "[(CHR ''a'', CHR ''z''), (CHR ''0'', CHR ''9'')]"
  let ?inner = "[(CHR ''a'', CHR ''z''), (CHR ''0'', CHR ''9''), (CHR ''-'', CHR ''-'')]"
  have inner: "in_class ?inner c \<longleftrightarrow> label_char c" for c
    by (auto simp: in_class_def label_char_def char_between_def)
  have "in_class ?edge c \<longleftrightarrow> in_class ?inner c \<and> c \<noteq> CHR ''-''" for c
    by (auto simp: in_class_def char_between_def)
  then have "rx_match (label_rx ?edge ?inner) s \<longleftrightarrow> is_label (in_class ?inner) s"
    by (rule rx_match_label_iff)
  then show ?thesis
    by (auto simp: valid_subdomain_label_def subdomain_label_rx_def is_label_def inner
        list_all_iff Suc_le_eq)
qed

lemma valid_subdomain_label_chars:
  assumes "valid_subdomain_label s"
  shows "s \<noteq> []" "\<forall>c \<in> set s. label_char c"
proof -
  have "rx_match subdomain_label_rx s" using assms by (simp add: valid_subdomain_label_def)
  then show "s \<noteq> []" "\<forall>c \<in> set s. label_char c"
    by (auto simp: subdomain_label_rx_def rx_match_label list_all_iff in_class_def label_char_def
        char_between_def)
qed

lemma label_char_lower: "label_char c \<Longrightarrow> is_lower_or_caseless c"
  by (auto simp: label_char_def is_lower_or_caseless_def char_between_disjoint
      dest: char_between_ascii) (simp_all add: is_ascii_def char_between_def)

lemma label_char_plain: "label_char c \<Longrightarrow> c \<noteq> CHR '':'' \<and> c \<noteq> CHR ''['' \<and> c \<noteq> CHR '']'' \<and> c \<noteq> CHR ''.''"
  by (auto simp: label_char_def char_between_def)

end
