(* ===== verification/HttpHost.thy ===== *)
theory HttpHost
  imports HostPort Proto
begin

text \<open>
  Host-routed tunnels (httphost.go): the public name of a tunnel and its inverse, the
  folding of a request's Host value that routing uses (server.go), and the reader that
  looks at a request's head and then replays the bytes it consumed.
\<close>

section \<open>Public names\<close>

definition http_full_host :: "string \<Rightarrow> string \<Rightarrow> string" where
  "http_full_host base_domain slug = slug @ ''.'' @ base_domain"

definition http_slug_from_host :: "string \<Rightarrow> string \<Rightarrow> string" where
  "http_slug_from_host base_domain full_host = trim_suffix full_host (''.'' @ base_domain)"

lemma http_slug_full [simp]: "http_slug_from_host base (http_full_host base slug) = slug"
  by (simp add: http_slug_from_host_def http_full_host_def del: append_Cons append_Nil)

interpretation slug: codec "\<lambda>_. True" "http_full_host base"
    "\<lambda>h. Some (http_slug_from_host base h)" for base
  by unfold_locales simp

text \<open>How \<open>handleHTTPConn\<close> turns the Host value of a request into the name it looks up.\<close>

definition request_host :: "(string \<Rightarrow> string) \<Rightarrow> string \<Rightarrow> string" where
  "request_host uni host = to_lower uni (trim_port host)"

text \<open>A base domain that the server can route under: lower case ASCII and no port.\<close>

definition routable_domain :: "string \<Rightarrow> bool" where
  "routable_domain base \<longleftrightarrow> plain_chars base \<and> (\<forall>c \<in> set base. is_lower_or_caseless c)"

lemma full_host_chars:
  assumes "valid_subdomain_label slug" "routable_domain base"
  shows "plain_chars (http_full_host base slug)"
    and "\<forall>c \<in> set (http_full_host base slug). is_lower_or_caseless c"
    and "http_full_host base slug \<noteq> []"
proof -
  have "\<forall>c \<in> set slug. c \<noteq> CHR '':'' \<and> c \<noteq> CHR ''['' \<and> c \<noteq> CHR '']'' \<and> is_lower_or_caseless c"
    using valid_subdomain_label_chars(2) [OF assms(1)] label_char_plain label_char_lower by blast
  moreover have "is_lower_or_caseless CHR ''.''"
    by (simp add: is_lower_or_caseless_def is_ascii_def char_between_def)
  ultimately show "plain_chars (http_full_host base slug)"
      "\<forall>c \<in> set (http_full_host base slug). is_lower_or_caseless c"
    using assms(2) by (auto simp: http_full_host_def routable_domain_def plain_chars_def)
  show "http_full_host base slug \<noteq> []" by (simp add: http_full_host_def)
qed

lemma trim_port_full_host:
  "\<lbrakk>valid_subdomain_label slug; routable_domain base\<rbrakk> \<Longrightarrow>
     trim_port (http_full_host base slug) = http_full_host base slug"
  by (simp add: trim_port_plain_id full_host_chars)

lemma ascii_lower_special:
  "ascii_lower CHR '':'' = CHR '':''" "ascii_lower CHR ''['' = CHR ''[''"
  "ascii_lower CHR '']'' = CHR '']''"
  by code_simp+

lemma plain_chars_lower: "plain_chars (map ascii_lower h) \<Longrightarrow> plain_chars h"
  using ascii_lower_special unfolding plain_chars_def by (metis image_eqI list.set_map)

text \<open>
  The Host value of a request for a tunnel's public name, in any letter case and with or
  without a port, folds to the registered name.
\<close>

definition host_value_for :: "string \<Rightarrow> string \<Rightarrow> bool" where
  "host_value_for name v \<longleftrightarrow>
     (\<exists>h. (\<forall>c \<in> set h. is_ascii c) \<and> map ascii_lower h = name \<and>
        (v = h \<or> (\<exists>p. plain_chars p \<and> v = h @ CHR '':'' # p)))"

lemma request_host_folds:
  assumes "host_value_for name v" "plain_chars name" "name \<noteq> []"
  shows "request_host uni v = name"
proof -
  from assms(1) obtain h where h: "\<forall>c \<in> set h. is_ascii c" "map ascii_lower h = name"
      "v = h \<or> (\<exists>p. plain_chars p \<and> v = h @ CHR '':'' # p)"
    by (auto simp: host_value_for_def)
  then have "plain_chars h" "h \<noteq> []" using assms(2,3) plain_chars_lower by auto
  with h(3) have "trim_port v = h" by (auto simp: trim_port_plain trim_port_plain_id)
  with h(1,2) show ?thesis by (simp add: request_host_def to_lower_def)
qed

section \<open>Peeking at a request\<close>

text \<open>
  A connection yields its bytes in pieces; one read with room for \<open>n\<close> bytes returns at
  most that many and leaves the rest of the piece.
\<close>

type_synonym stream = "string list"

fun read_some :: "nat \<Rightarrow> stream \<Rightarrow> (string \<times> stream) option" where
  "read_some n [] = None"
| "read_some n (c # cs) =
     (if length c \<le> n then Some (c, cs) else Some (take n c, drop n c # cs))"

lemma read_some_content:
  "read_some n s = Some (c, s') \<Longrightarrow> c @ concat s' = concat s"
  by (cases s) (auto split: if_splits simp flip: append_assoc)

text \<open>
  The request parser of net/http is an argument: what it makes of the bytes read so far.
  So is the room bufio offers the next read, which is at least one byte.
\<close>

datatype head_parse = Incomplete | Malformed string | HostIs string

datatype peek_error = UnexpectedEOF | BadRequest string

function peek_loop :: "(string \<Rightarrow> nat) \<Rightarrow> (string \<Rightarrow> head_parse) \<Rightarrow> string \<Rightarrow> stream
    \<Rightarrow> peek_error + (string \<times> string \<times> stream)" where
  "peek_loop room parse buf r =
     (case parse buf of
        HostIs h \<Rightarrow> Inr (h, buf, r)
      | Malformed e \<Rightarrow> Inl (BadRequest e)
      | Incomplete \<Rightarrow>
          (case read_some (Suc (room buf)) r of
             None \<Rightarrow> Inl UnexpectedEOF
           | Some (c, r') \<Rightarrow> peek_loop room parse (buf @ c) r'))"
  by pat_completeness auto
termination
proof (relation "measure (\<lambda>(room, parse, buf, r). length (concat r) + length r)")
  fix room :: "string \<Rightarrow> nat" and parse buf r x c r'
  assume "read_some (Suc (room buf)) r = Some x" "(c, r') = x"
  then show "((room, parse, buf @ c, r'), room, parse, buf, r)
      \<in> measure (\<lambda>(room, parse, buf, r). length (concat r) + length r)"
    by (cases r) (auto split: if_splits)
qed simp

declare peek_loop.simps [simp del]

text \<open>
  \<open>peekHostHeader\<close>: the host, and the replay reader \<open>MultiReader(&buf, r)\<close> as what it
  will yield: the bytes already consumed, then what is left of the connection.
\<close>

definition peek_host_header :: "(string \<Rightarrow> nat) \<Rightarrow> (string \<Rightarrow> head_parse) \<Rightarrow> stream
    \<Rightarrow> peek_error + (string \<times> stream)" where
  "peek_host_header room parse r =
     (case peek_loop room parse [] r of
        Inl e \<Rightarrow> Inl e
      | Inr (h, buf, rest) \<Rightarrow> Inr (h, buf # rest))"

text \<open>Reading a connection with buffers of the given sizes until they are used up.\<close>

fun read_all :: "nat list \<Rightarrow> stream \<Rightarrow> string \<times> stream" where
  "read_all [] s = ([], s)"
| "read_all (n # ns) s =
     (case read_some n s of
        None \<Rightarrow> ([], s)
      | Some (c, s') \<Rightarrow> let (d, s'') = read_all ns s' in (c @ d, s''))"

lemma read_all_content: "read_all ns s = (d, s') \<Longrightarrow> d @ concat s' = concat s"
proof (induction ns s arbitrary: d s' rule: read_all.induct)
  case (1 s)
  then show ?case by simp
next
  case (2 n ns s)
  show ?case
  proof (cases "read_some n s")
    case None
    with "2.prems" show ?thesis by simp
  next
    case (Some x)
    obtain c t where x: "x = (c, t)" by (cases x)
    obtain e u where eu: "read_all ns t = (e, u)" by (cases "read_all ns t")
    from Some x eu "2.prems" have "d = c @ e" "s' = u" by auto
    moreover have "e @ concat u = concat t" using "2.IH" Some x eu by blast
    ultimately show ?thesis using read_some_content [of n s c t] Some x by simp
  qed
qed

lemma peek_loop_result:
  "peek_loop room parse buf r = Inr (h, buf', rest) \<Longrightarrow>
     parse buf' = HostIs h \<and> (\<exists>c. buf' = buf @ c \<and> c @ concat rest = concat r)"
proof (induction room parse buf r rule: peek_loop.induct)
  case (1 room parse buf r)
  show ?case
  proof (cases "parse buf")
    case Incomplete
    with "1.prems" obtain c r' where read: "read_some (Suc (room buf)) r = Some (c, r')"
        and loop: "peek_loop room parse (buf @ c) r' = Inr (h, buf', rest)"
      by (subst (asm) peek_loop.simps) (auto split: option.splits)
    from "1.IH" [OF Incomplete read refl loop] obtain d where
      d: "parse buf' = HostIs h" "buf' = (buf @ c) @ d" "d @ concat rest = concat r'" by blast
    then show ?thesis using read_some_content [OF read]
      by (intro conjI exI [of _ "c @ d"]) auto
  next
    case (Malformed e)
    with "1.prems" show ?thesis by (subst (asm) peek_loop.simps) simp
  next
    case (HostIs h')
    with "1.prems" show ?thesis by (subst (asm) peek_loop.simps) auto
  qed
qed

text \<open>
  C29: Looking at the Host header costs the connection nothing: however the bytes arrive
  and however much the parser consumed, whoever reads the replaying connection, with
  buffers of any sizes, gets exactly the bytes the user sent, in order.
\<close>

theorem peek_replays_exactly:
  assumes "peek_host_header room parse r = Inr (h, replay)"
    and "read_all sizes replay = (bytes, rest)"
  shows "bytes @ concat rest = concat r \<and> (\<exists>seen later. concat r = seen @ later \<and> parse seen = HostIs h)"
proof -
  from assms(1) obtain buf left where loop: "peek_loop room parse [] r = Inr (h, buf, left)"
      and replay: "replay = buf # left"
    by (auto simp: peek_host_header_def split: sum.splits)
  from peek_loop_result [OF loop] have "parse buf = HostIs h" "buf @ concat left = concat r" by auto
  moreover from read_all_content [OF assms(2)] have "bytes @ concat rest = buf @ concat left"
    by (simp add: replay)
  ultimately show ?thesis by (metis)
qed

definition sample_parse :: "string \<Rightarrow> head_parse" where
  "sample_parse s = (if length s < 3 then Incomplete else HostIs (take 3 s))"

theorem peek_replays_exactly_witness:
  "peek_host_header (\<lambda>_. 0) sample_parse [''ab'', ''cde''] = Inr (''abc'', [''abc'', ''de'']) \<and>
   read_all [2, 5] [''abc'', ''de''] = (''abc'', [''de'']) \<and>
   ''abc'' @ concat [''de''] = concat [''ab'', ''cde'']"
proof -
  have "peek_host_header (\<lambda>_. 0) sample_parse [''ab'', ''cde''] = Inr (''abc'', [''abc'', ''de''])"
    by (simp add: peek_host_header_def peek_loop.simps sample_parse_def)
  moreover have "read_all [2, 5] [''abc'', ''de''] = (''abc'', [''de''])" by simp
  ultimately show ?thesis
    using peek_replays_exactly [of "\<lambda>_. 0" sample_parse "[''ab'', ''cde'']" "''abc''"
        "[''abc'', ''de'']" "[2, 5]" "''abc''" "[''de'']"] by blast
qed

end
