(* ===== verification/Pool.thy ===== *)
theory Pool
  imports Ids
begin

text \<open>
  The pool of client connections (pool.go). Its state is the map from addresses to
  connections; the effects of its operations are the connections they close and the
  calls of the \<open>free\<close> callback, which act on the environment \<open>env\<close> (for the server: its
  registry and listeners). What the pool asks of an HTTP/2 connection (whether it can
  take a request, whether it answers a ping, the creation of one) are arguments.
\<close>

section \<open>State and operations\<close>

record conn_pair =
  conn :: nat
  client_conn :: nat

record 'w pool =
  conns :: "string \<rightharpoonup> conn_pair"
  closed_conns :: "nat list"
  env :: 'w

type_synonym 'w free = "(ID \<Rightarrow> 'w \<Rightarrow> 'w) option"

datatype pool_error = ClientNotConnected | ClientAlreadyConnected | NewClientConnFailed string
  | PingFailed

definition new_pool :: "'w \<Rightarrow> 'w pool" where
  [simp]: "new_pool w = \<lparr>conns = Map.empty, closed_conns = [], env = w\<rparr>"

definition pool_url :: "ID \<Rightarrow> string" where
  "pool_url identifier = ''https://'' @ id_string identifier"

definition pool_addr :: "ID \<Rightarrow> string" where
  "pool_addr identifier = id_string identifier @ '':443''"

definition pool_identifier :: "(string \<Rightarrow> string) \<Rightarrow> string \<Rightarrow> ID" where
  "pool_identifier uni addr =
     (case split_host_port addr of
        Inl _ \<Rightarrow> zero_ID
      | Inr (host, _) \<Rightarrow>
          (case unmarshal_text uni zero_ID host of Inl _ \<Rightarrow> zero_ID | Inr i \<Rightarrow> i))"

definition close_conn :: "nat \<Rightarrow> 'w pool \<Rightarrow> 'w pool" where
  "close_conn c p = p\<lparr>closed_conns := closed_conns p @ [c]\<rparr>"

definition pool_close :: "(string \<Rightarrow> string) \<Rightarrow> 'w free \<Rightarrow> conn_pair \<Rightarrow> string \<Rightarrow> 'w pool \<Rightarrow> 'w pool" where
  "pool_close uni free cp addr p =
     (let p = close_conn (conn cp) p;
          p = p\<lparr>conns := (conns p)(addr := None)\<rparr>
      in case free of None \<Rightarrow> p | Some f \<Rightarrow> p\<lparr>env := f (pool_identifier uni addr) (env p)\<rparr>)"

text \<open>
  \<open>GetClientConn\<close> gives up the lock between finding a connection unusable and evicting
  it; \<open>other\<close> is what the other goroutines do to the pool in between.
\<close>

definition get_client_conn :: "(string \<Rightarrow> string) \<Rightarrow> 'w free \<Rightarrow> (nat \<Rightarrow> bool) \<Rightarrow> ('w pool \<Rightarrow> 'w pool)
    \<Rightarrow> string \<Rightarrow> 'w pool \<Rightarrow> (pool_error + nat) \<times> 'w pool" where
  "get_client_conn uni free can_take other addr p =
     (case conns p addr of
        None \<Rightarrow> (Inl ClientNotConnected, p)
      | Some cp \<Rightarrow>
          if can_take (client_conn cp) then (Inr (client_conn cp), p)
          else
            (let p = other p in
             (Inl ClientNotConnected,
              case conns p addr of
                Some cur \<Rightarrow>
                  if client_conn cur = client_conn cp then pool_close uni free cur addr p else p
              | None \<Rightarrow> p)))"

text \<open>\<open>MarkDead\<close> stops at the first entry of the connection, in the order the map is ranged over.\<close>

fun mark_dead :: "(string \<Rightarrow> string) \<Rightarrow> 'w free \<Rightarrow> nat \<Rightarrow> string list \<Rightarrow> 'w pool \<Rightarrow> 'w pool" where
  "mark_dead uni free c [] p = p"
| "mark_dead uni free c (addr # order) p =
     (case conns p addr of
        Some cp \<Rightarrow>
          if client_conn cp = c then pool_close uni free cp addr p
          else mark_dead uni free c order p
      | None \<Rightarrow> mark_dead uni free c order p)"

definition put_conn :: "string + nat \<Rightarrow> nat \<Rightarrow> string \<Rightarrow> 'w pool \<Rightarrow> pool_error option \<times> 'w pool" where
  "put_conn new_client_conn c addr p =
     (case new_client_conn of
        Inl err \<Rightarrow> (Some (NewClientConnFailed err), close_conn c p)
      | Inr cc \<Rightarrow> (None, p\<lparr>conns := (conns p)(addr \<mapsto> \<lparr>conn = c, client_conn = cc\<rparr>)\<rparr>))"

definition add_conn :: "(string \<Rightarrow> string) \<Rightarrow> 'w free \<Rightarrow> (nat \<Rightarrow> bool) \<Rightarrow> string + nat \<Rightarrow> nat \<Rightarrow> ID
    \<Rightarrow> 'w pool \<Rightarrow> pool_error option \<times> 'w pool" where
  "add_conn uni free ping new_client_conn c identifier p =
     (let addr = pool_addr identifier in
      case conns p addr of
        Some cp \<Rightarrow>
          if \<not> ping (client_conn cp)
          then put_conn new_client_conn c addr (pool_close uni free cp addr p)
          else (Some ClientAlreadyConnected, p)
      | None \<Rightarrow> put_conn new_client_conn c addr p)"

definition delete_conn :: "(string \<Rightarrow> string) \<Rightarrow> 'w free \<Rightarrow> ID \<Rightarrow> 'w pool \<Rightarrow> 'w pool" where
  "delete_conn uni free identifier p =
     (let addr = pool_addr identifier in
      case conns p addr of Some cp \<Rightarrow> pool_close uni free cp addr p | None \<Rightarrow> p)"

text \<open>\<open>Ping\<close>: the elapsed time is what the clock shows around the ping.\<close>

definition pool_ping :: "(nat \<Rightarrow> bool) \<Rightarrow> int \<Rightarrow> ID \<Rightarrow> 'w pool \<Rightarrow> int \<times> pool_error option" where
  "pool_ping ping elapsed identifier p =
     (case conns p (pool_addr identifier) of
        Some cp \<Rightarrow> (elapsed, if ping (client_conn cp) then None else Some PingFailed)
      | None \<Rightarrow> (0, Some ClientNotConnected))"

section \<open>Addresses and identifiers\<close>

lemma plain_443 [simp]: "plain_chars ''443''"
  by (simp add: plain_chars_def)

lemma pool_identifier_addr [simp]: "pool_identifier uni (pool_addr i) = i"
proof -
  have "split_host_port (pool_addr i) = Inr (id_string i, ''443'')"
    using split_host_port_plain [OF id_string_plain plain_443, of i] by (simp add: pool_addr_def)
  then show ?thesis by (simp add: pool_identifier_def id_string_unmarshal)
qed

interpretation pool_key: codec "\<lambda>_. True" pool_addr "\<lambda>a. Some (pool_identifier id a)"
  by unfold_locales simp

lemma pool_addr_inj [simp]: "pool_addr i = pool_addr j \<longleftrightarrow> i = j"
  using pool_key.enc_inj by simp

section \<open>The invariant\<close>

text \<open>Every key is the address of a client, and no HTTP/2 connection is pooled twice.\<close>

definition pool_ok :: "'w pool \<Rightarrow> bool" where
  "pool_ok p \<longleftrightarrow>
     (\<forall>a cp. conns p a = Some cp \<longrightarrow> (\<exists>i. a = pool_addr i)) \<and>
     (\<forall>a b cp cq. conns p a = Some cp \<and> conns p b = Some cq \<and> client_conn cp = client_conn cq \<longrightarrow> a = b)"

lemma pool_ok_key: "pool_ok p \<Longrightarrow> conns p a = Some cp \<Longrightarrow> \<exists>i. a = pool_addr i"
  by (simp add: pool_ok_def)

lemma pool_ok_unique:
  "\<lbrakk>pool_ok p; conns p a = Some cp; conns p b = Some cq; client_conn cp = client_conn cq\<rbrakk> \<Longrightarrow> a = b"
  unfolding pool_ok_def by blast

lemma close_conn_simps [simp]:
  "conns (close_conn c p) = conns p" "env (close_conn c p) = env p"
  "closed_conns (close_conn c p) = closed_conns p @ [c]"
  by (simp_all add: close_conn_def)

lemma pool_close_simps [simp]:
  "conns (pool_close uni free cp a p) = (conns p)(a := None)"
  "closed_conns (pool_close uni free cp a p) = closed_conns p @ [conn cp]"
  by (simp_all add: pool_close_def Let_def split: option.split)

lemma pool_close_env: "env (pool_close uni free cp (pool_addr i) p)
    = (case free of None \<Rightarrow> env p | Some f \<Rightarrow> f i (env p))"
  by (simp add: pool_close_def Let_def split: option.split)

lemma pool_ok_sub:
  "\<lbrakk>pool_ok p; \<And>a cp. conns q a = Some cp \<Longrightarrow> conns p a = Some cp\<rbrakk> \<Longrightarrow> pool_ok q"
  unfolding pool_ok_def by meson

lemma pool_ok_close [inv_intros]: "pool_ok p \<Longrightarrow> pool_ok (pool_close uni free cp a p)"
  by (erule pool_ok_sub) (auto split: if_splits)

lemma pool_ok_mark_dead [inv_intros]: "pool_ok p \<Longrightarrow> pool_ok (mark_dead uni free c order p)"
  by (induction uni free c order p rule: mark_dead.induct)
     (auto split: option.splits intro: inv_intros)

lemma pool_ok_delete [inv_intros]: "pool_ok p \<Longrightarrow> pool_ok (delete_conn uni free i p)"
  by (auto simp: delete_conn_def Let_def split: option.splits intro: inv_intros)

lemma pool_ok_get [inv_intros]:
  "\<lbrakk>pool_ok p; \<And>q. pool_ok q \<Longrightarrow> pool_ok (other q)\<rbrakk> \<Longrightarrow>
     pool_ok (snd (get_client_conn uni free can other a p))"
  by (auto simp: get_client_conn_def Let_def split: option.splits intro: inv_intros)

text \<open>A new HTTP/2 connection is one that is not in the pool yet.\<close>

definition fresh_client :: "string + nat \<Rightarrow> 'w pool \<Rightarrow> bool" where
  "fresh_client ncc p \<longleftrightarrow> (\<forall>c a cp. ncc = Inr c \<and> conns p a = Some cp \<longrightarrow> client_conn cp \<noteq> c)"

lemma pool_ok_put:
  assumes "pool_ok p" "fresh_client ncc p"
  shows "pool_ok (snd (put_conn ncc c (pool_addr i) p))"
proof (cases ncc)
  case (Inl e)
  with assms(1) show ?thesis by (simp add: put_conn_def pool_ok_def)
next
  case (Inr cc)
  with assms have "client_conn cp \<noteq> cc" if "conns p a = Some cp" for a cp
    using that by (auto simp: fresh_client_def)
  with assms(1) Inr show ?thesis
    by (auto simp: put_conn_def pool_ok_def split: if_splits)
qed

lemma pool_ok_add [inv_intros]:
  assumes "pool_ok p" "fresh_client ncc p"
  shows "pool_ok (snd (add_conn uni free ping ncc c i p))"
proof -
  have "fresh_client ncc (pool_close uni free cp a p)" for cp a
    using assms(2) by (auto simp: fresh_client_def split: if_splits)
  with assms show ?thesis
    by (auto simp: add_conn_def Let_def split: option.split intro: pool_ok_put inv_intros)
qed

section \<open>The pool as a connection cache\<close>

lemma delete_conn_Some:
  "conns p (pool_addr i) = Some cp \<Longrightarrow> delete_conn uni free i p = pool_close uni free cp (pool_addr i) p"
  by (simp add: delete_conn_def)

lemma delete_conn_None: "conns p (pool_addr i) = None \<Longrightarrow> delete_conn uni free i p = p"
  by (simp add: delete_conn_def)

lemma conns_delete: "conns (delete_conn uni free i p) = (conns p)(pool_addr i := None)"
  by (cases "conns p (pool_addr i)") (auto simp: delete_conn_Some delete_conn_None)

lemma put_conn_cases:
  "fst (put_conn ncc c a p) = None \<longleftrightarrow> (\<exists>cc. ncc = Inr cc)"
  "ncc = Inr cc \<Longrightarrow> conns (snd (put_conn ncc c a p)) = (conns p)(a \<mapsto> \<lparr>conn = c, client_conn = cc\<rparr>)"
  "ncc = Inl e \<Longrightarrow> snd (put_conn ncc c a p) = close_conn c p"
  "env (snd (put_conn ncc c a p)) = env p"
  by (auto simp: put_conn_def split: sum.split)

text \<open>
  Removing a client's connection closes that connection, forgets it, leaves every
  other client's entry alone and calls the release callback for exactly this client: the
  identifier recovered from the address text is the identifier that was stored.
\<close>

theorem delete_conn_frees_owner:
  assumes "conns p (pool_addr i) = Some cp"
  shows "conns (delete_conn uni (Some f) i p) (pool_addr i) = None \<and>
    (\<forall>j. j \<noteq> i \<longrightarrow> conns (delete_conn uni (Some f) i p) (pool_addr j) = conns p (pool_addr j)) \<and>
    closed_conns (delete_conn uni (Some f) i p) = closed_conns p @ [conn cp] \<and>
    env (delete_conn uni (Some f) i p) = f i (env p)"
  using assms by (simp add: delete_conn_Some pool_close_env)

definition sample_pool :: "ID list pool" where
  "sample_pool = \<lparr>conns = [pool_addr zero_ID \<mapsto> \<lparr>conn = 1, client_conn = 10\<rparr>],
     closed_conns = [], env = []\<rparr>"

definition record_free :: "ID \<Rightarrow> ID list \<Rightarrow> ID list" where
  "record_free i freed = freed @ [i]"

lemma sample_pool_conn: "conns sample_pool (pool_addr zero_ID) = Some \<lparr>conn = 1, client_conn = 10\<rparr>"
  by (simp add: sample_pool_def)

lemma sample_pool_ok: "pool_ok sample_pool"
  by (auto simp: pool_ok_def sample_pool_def split: if_splits)

theorem delete_conn_frees_owner_witness:
  "conns sample_pool (pool_addr zero_ID) = Some \<lparr>conn = 1, client_conn = 10\<rparr> \<and>
   env (delete_conn id (Some record_free) zero_ID sample_pool) = [zero_ID]"
  using delete_conn_frees_owner [OF sample_pool_conn, of id record_free] sample_pool_conn
  by (simp add: sample_pool_def record_free_def)

text \<open>
  A request is only ever handed a connection of the addressed client that can take
  it. An unusable connection is evicted and its client released; but if other goroutines
  replaced it while the lock was free, the replacement is left alone.
\<close>

theorem get_client_conn_correct:
  assumes "get_client_conn uni (Some f) can_take other (pool_addr i) p = (res, q)"
  shows "case res of
      Inr c \<Rightarrow> q = p \<and> can_take c \<and> (\<exists>cp. conns p (pool_addr i) = Some cp \<and> client_conn cp = c)
    | Inl e \<Rightarrow> e = ClientNotConnected \<and>
        (\<forall>cp. conns p (pool_addr i) = Some cp \<longrightarrow>
           \<not> can_take (client_conn cp) \<and>
           (if \<exists>cur. conns (other p) (pool_addr i) = Some cur \<and> client_conn cur = client_conn cp
            then conns q = (conns (other p))(pool_addr i := None) \<and> env q = f i (env (other p))
            else q = other p))"
  using assms
  by (auto simp: get_client_conn_def Let_def pool_close_env split: option.splits if_splits)

theorem get_client_conn_correct_witness:
  "\<exists>q. get_client_conn id (Some record_free) (\<lambda>_. False) id (pool_addr zero_ID) sample_pool
         = (Inl ClientNotConnected, q) \<and> env q = [zero_ID]"
proof -
  obtain res q where rq: "get_client_conn id (Some record_free) (\<lambda>_. False) id
      (pool_addr zero_ID) sample_pool = (res, q)" by fastforce
  from get_client_conn_correct [OF rq] sample_pool_conn rq show ?thesis
    by (cases res) (auto simp: sample_pool_def record_free_def)
qed

lemma mark_dead_none:
  "\<forall>a cp. conns p a = Some cp \<longrightarrow> client_conn cp \<noteq> c \<Longrightarrow> mark_dead uni free c order p = p"
  by (induction order) (auto split: option.split)

lemma mark_dead_one:
  "\<lbrakk>pool_ok p; conns p a = Some cp; client_conn cp = c; a \<in> set order\<rbrakk> \<Longrightarrow>
     mark_dead uni free c order p = pool_close uni free cp a p"
proof (induction order)
  case Nil
  then show ?case by simp
next
  case (Cons b order)
  show ?case
  proof (cases "conns p b")
    case None
    with Cons show ?thesis by auto
  next
    case (Some cq)
    show ?thesis
    proof (cases "client_conn cq = c")
      case True
      then have "b = a" using Some Cons.prems pool_ok_unique [of p b cq a cp] by simp
      with Some True Cons.prems show ?thesis by simp
    next
      case False
      with Some Cons show ?thesis by auto
    qed
  qed
qed

text \<open>
  A connection the HTTP/2 layer reports dead is removed exactly as if its client had
  been disconnected, whatever order the map is ranged over in; a connection that is not
  in the pool changes nothing.
\<close>

theorem mark_dead_removes_owner:
  assumes "pool_ok p" and "set order = dom (conns p)"
  shows "(\<forall>i cp. conns p (pool_addr i) = Some cp \<and> client_conn cp = c \<longrightarrow>
            mark_dead uni free c order p = delete_conn uni free i p) \<and>
         ((\<forall>a cp. conns p a = Some cp \<longrightarrow> client_conn cp \<noteq> c) \<longrightarrow> mark_dead uni free c order p = p)"
proof -
  have "mark_dead uni free c order p = delete_conn uni free i p"
    if "conns p (pool_addr i) = Some cp" "client_conn cp = c" for i cp
    using mark_dead_one [OF assms(1) that, of order] assms(2) that(1)
    by (simp add: delete_conn_Some domI)
  then show ?thesis using mark_dead_none by blast
qed

theorem mark_dead_removes_owner_witness:
  "pool_ok sample_pool \<and> set [pool_addr zero_ID] = dom (conns sample_pool) \<and>
   mark_dead id (Some record_free) 10 [pool_addr zero_ID] sample_pool
     = delete_conn id (Some record_free) zero_ID sample_pool"
proof -
  have "set [pool_addr zero_ID] = dom (conns sample_pool)" by (simp add: sample_pool_def)
  then show ?thesis
    using mark_dead_removes_owner [OF sample_pool_ok, of "[pool_addr zero_ID]" 10 id "Some record_free"]
      sample_pool_conn sample_pool_ok by auto
qed

text \<open>
  A client that answers a ping is never displaced by a second connection. Otherwise
  the old connection, if there is one, is closed and its client released before the new
  one takes its place; and if the new one cannot be set up it is closed, with no entry
  left for the client.
\<close>

theorem add_conn_correct:
  assumes "add_conn uni (Some f) ping ncc c i p = (res, q)"
  shows "(if \<exists>cp. conns p (pool_addr i) = Some cp \<and> ping (client_conn cp)
          then res = Some ClientAlreadyConnected \<and> q = p
          else env q = (if conns p (pool_addr i) = None then env p else f i (env p)) \<and>
               (\<forall>cp. conns p (pool_addr i) = Some cp \<longrightarrow> conn cp \<in> set (closed_conns q)) \<and>
               (case ncc of
                  Inr cc \<Rightarrow> res = None \<and>
                    conns q = (conns p)(pool_addr i \<mapsto> \<lparr>conn = c, client_conn = cc\<rparr>)
                | Inl e \<Rightarrow> res = Some (NewClientConnFailed e) \<and>
                    conns q = (conns p)(pool_addr i := None) \<and> c \<in> set (closed_conns q)))"
  using assms
  by (auto simp: add_conn_def put_conn_def Let_def pool_close_env split: option.splits sum.splits)

theorem add_conn_correct_witness:
  "add_conn id (Some record_free) (\<lambda>_. False) (Inr 11) 2 zero_ID sample_pool
     = (None, snd (add_conn id (Some record_free) (\<lambda>_. False) (Inr 11) 2 zero_ID sample_pool)) \<and>
   env (snd (add_conn id (Some record_free) (\<lambda>_. False) (Inr 11) 2 zero_ID sample_pool)) = [zero_ID]"
proof -
  obtain res q where rq: "add_conn id (Some record_free) (\<lambda>_. False) (Inr 11) 2 zero_ID sample_pool
      = (res, q)" by fastforce
  from add_conn_correct [OF rq] rq sample_pool_conn show ?thesis
    by (simp add: sample_pool_def record_free_def)
qed

end
