(* ===== verification/ServerTunnels.thy ===== *)
theory ServerTunnels
  imports Registry HttpHost Pool
begin

text \<open>
  The server's state and what it does with a client's tunnels (server.go): the cleanup
  callback \<open>disconnected\<close>, and \<open>addTunnels\<close>, which opens listeners and host names for a
  handshake or takes everything back. The state is the pool with, as its environment,
  the registry, the open listeners and the goroutines serving them. Opening a listener
  is a call of the operating system: its outcome, which may depend on the listeners that
  are open, is an argument. A range over a map is a list of its entries, in the order
  the range visits them.
\<close>

section \<open>State\<close>

record server_config =
  ListenAddr :: string
  AutoSubscribe :: bool
  TLSConfig :: bool
  Listener :: "listener option"
  BaseDomain :: string
  HTTPAddr :: string

text \<open>Why tunnels are refused (\<open>addTunnels\<close>), and why a client is rejected (\<open>handleClient\<close>).\<close>

datatype server_error =
    ListenFailed string
  | NoBaseDomain string
  | MissingHost string
  | InvalidLabel string string
  | UnsupportedProtocol string string
  | SetFailed set_error

datatype reject_reason =
    InvalidConnType
  | CertificateError peer_error
  | UnknownClient
  | DeadlineFailed string
  | AddConnFailed pool_error
  | RequestFailed string
  | RoundTripFailed string
  | NoConnection pool_error
  | BadStatus nat
  | EmptyContent
  | DecodeFailed string
  | NoTunnels
  | TunnelsRefused server_error

text \<open>
  What the server pushes to a client: the error, whose message is the value of the
  \<open>X-Error\<close> header, or the public names of its http tunnels, sent as the request's body.
\<close>

datatype push = ErrorPush reject_reason | TunnelInfoPush "(string \<times> string) list"

record world =
  reg :: registry
  open_listeners :: "listener set"
  closing :: "listener set"
  serving :: "(listener \<times> ID) list"
  pushes :: "(nat \<times> push) list"

type_synonym server = "world pool"

definition close_listeners :: "listener list \<Rightarrow> world \<Rightarrow> world" where
  "close_listeners ls w = w\<lparr>open_listeners := open_listeners w - set ls\<rparr>"

text \<open>
  \<open>disconnected\<close> first takes the client's item out of the registry, under the registry's lock,
  and then closes the listeners of the item one by one. \<open>released\<close> is its first part: the
  listeners are now \<open>closing\<close>, still open, and belong to nobody else. \<open>disconnected\<close> is the
  whole call, for the runs of one handler from start to end; where goroutines interleave
  (\<open>ServerRuns\<close>) the parts are steps of their own.
\<close>

definition released :: "ID \<Rightarrow> world \<Rightarrow> world" where
  "released identifier w =
     (case registry_clear identifier (reg w) of
        (None, r) \<Rightarrow> w\<lparr>reg := r\<rparr>
      | (Some i, r) \<Rightarrow> w\<lparr>reg := r, closing := closing w \<union> set (Listeners i)\<rparr>)"

definition close_closing :: "listener \<Rightarrow> world \<Rightarrow> world" where
  "close_closing l w = w\<lparr>open_listeners := open_listeners w - {l}, closing := closing w - {l}\<rparr>"

definition disconnected :: "ID \<Rightarrow> world \<Rightarrow> world" where
  "disconnected identifier w =
     (case registry_clear identifier (reg w) of
        (None, r) \<Rightarrow> w\<lparr>reg := r\<rparr>
      | (Some i, r) \<Rightarrow> close_listeners (Listeners i) (w\<lparr>reg := r\<rparr>))"

section \<open>addTunnels\<close>

type_synonym net_listen = "string \<Rightarrow> string \<Rightarrow> listener set \<Rightarrow> string + listener"

text \<open>
  A tunnel is a pointer: \<open>None\<close> is the nil pointer that a JSON \<open>null\<close> decodes to, and
  reading its protocol is a panic.
\<close>

datatype collected = Collected | Rollback server_error | NilTunnel

fun collect_tunnels :: "net_listen \<Rightarrow> string \<Rightarrow> (string \<times> tunnel option) list \<Rightarrow> registry_item
    \<Rightarrow> listener set \<Rightarrow> collected \<times> registry_item \<times> listener set" where
  "collect_tunnels lsn base [] i opened = (Collected, i, opened)"
| "collect_tunnels lsn base ((name, None) # ts) i opened = (NilTunnel, i, opened)"
| "collect_tunnels lsn base ((name, Some t) # ts) i opened =
     (if Protocol t = TCP \<or> Protocol t = TCP4 \<or> Protocol t = TCP6 then
        (case lsn (Protocol t) (Addr t) opened of
           Inl err \<Rightarrow> (Rollback (ListenFailed err), i, opened)
         | Inr l \<Rightarrow> collect_tunnels lsn base ts (i\<lparr>Listeners := Listeners i @ [l]\<rparr>) (insert l opened))
      else if Protocol t = HTTP then
        if base = [] then (Rollback (NoBaseDomain name), i, opened)
        else if Host t = [] then (Rollback (MissingHost name), i, opened)
        else if \<not> valid_subdomain_label (Host t) then (Rollback (InvalidLabel name (Host t)), i, opened)
        else collect_tunnels lsn base ts
               (i\<lparr>Hosts := Hosts i @ [http_full_host base (Host t)]\<rparr>) opened
      else (Rollback (UnsupportedProtocol name (Protocol t)), i, opened))"

datatype add_result = Added | Refused server_error | Panicked

definition add_tunnels :: "net_listen \<Rightarrow> server_config \<Rightarrow> (string \<times> tunnel option) list \<Rightarrow> ID
    \<Rightarrow> world \<Rightarrow> add_result \<times> world" where
  "add_tunnels lsn cfg tunnels identifier w =
     (case collect_tunnels lsn (BaseDomain cfg) tunnels \<lparr>Hosts = [], Listeners = []\<rparr> (open_listeners w) of
        (NilTunnel, i, opened) \<Rightarrow> (Panicked, w\<lparr>open_listeners := opened\<rparr>)
      | (Rollback err, i, opened) \<Rightarrow>
          (Refused err, close_listeners (Listeners i) (w\<lparr>open_listeners := opened\<rparr>))
      | (Collected, i, opened) \<Rightarrow>
          (case registry_set i identifier (reg w) of
             Inl err \<Rightarrow>
               (Refused (SetFailed err), close_listeners (Listeners i) (w\<lparr>open_listeners := opened\<rparr>))
           | Inr r \<Rightarrow>
               (Added, w\<lparr>reg := r, open_listeners := opened,
                         serving := serving w @ map (\<lambda>l. (l, identifier)) (Listeners i)\<rparr>)))"

text \<open>The operating system hands out listeners that are not open already.\<close>

definition fresh_listen :: "net_listen \<Rightarrow> bool" where
  "fresh_listen lsn \<longleftrightarrow> (\<forall>p a s l. lsn p a s = Inr l \<longrightarrow> l \<notin> s)"

definition is_tcp :: "tunnel \<Rightarrow> bool" where
  "is_tcp t \<longleftrightarrow> Protocol t = TCP \<or> Protocol t = TCP4 \<or> Protocol t = TCP6"

lemma HTTP_not_tcp [simp]: "Protocol t = HTTP \<Longrightarrow> \<not> is_tcp t"
  by (simp add: is_tcp_def protocol_names)

text \<open>The hosts a list of tunnels asks for.\<close>

definition requested_hosts :: "string \<Rightarrow> (string \<times> tunnel option) list \<Rightarrow> string list" where
  "requested_hosts base ts =
     map (\<lambda>t. http_full_host base (Host t))
       (filter (\<lambda>t. Protocol t = HTTP) (map (\<lambda>(_, t). the t) ts))"

lemma requested_hosts_simps [simp]:
  "requested_hosts base [] = []"
  "requested_hosts base ((n, Some t) # ts) =
     (if Protocol t = HTTP then [http_full_host base (Host t)] else []) @ requested_hosts base ts"
  by (simp_all add: requested_hosts_def)

lemma requested_hosts_mem:
  "\<lbrakk>(n, Some t) \<in> set ts; Protocol t = HTTP\<rbrakk> \<Longrightarrow> http_full_host base (Host t) \<in> set (requested_hosts base ts)"
  by (force simp: requested_hosts_def)

text \<open>
  What the loop has done when it ends, however it ends: the item has grown by listeners
  that were closed before and are open now, and by nothing else.
\<close>

lemma collect_tunnels_grows:
  "\<lbrakk>fresh_listen lsn; collect_tunnels lsn base ts i opened = (res, i', opened')\<rbrakk> \<Longrightarrow>
    \<exists>ls. Listeners i' = Listeners i @ ls \<and> opened' = opened \<union> set ls \<and>
         set ls \<inter> opened = {} \<and> distinct ls"
proof (induction lsn base ts i opened rule: collect_tunnels.induct)
  case (1 lsn base i opened)
  then show ?case by auto
next
  case (2 lsn base name ts i opened)
  then show ?case by auto
next
  case (3 lsn base name t ts i opened)
  show ?case
  proof (cases "Protocol t = TCP \<or> Protocol t = TCP4 \<or> Protocol t = TCP6")
    case tcp: True
    show ?thesis
    proof (cases "lsn (Protocol t) (Addr t) opened")
      case (Inl err)
      with tcp "3.prems" show ?thesis by auto
    next
      case (Inr l)
      with tcp "3.prems" "3.IH"(1) obtain ls where
        "Listeners i' = (Listeners i @ [l]) @ ls" "opened' = insert l opened \<union> set ls"
        "set ls \<inter> insert l opened = {}" "distinct ls" by auto
      moreover have "l \<notin> opened" using "3.prems"(1) Inr by (auto simp: fresh_listen_def)
      ultimately show ?thesis by (intro exI [of _ "l # ls"]) auto
    qed
  next
    case False
    with "3.prems" "3.IH"(2) show ?thesis by (auto split: if_splits)
  qed
qed

lemma collect_tunnels_Collected:
  "collect_tunnels lsn base ts i opened = (Collected, i', opened') \<Longrightarrow>
    Hosts i' = Hosts i @ requested_hosts base ts \<and>
    (\<forall>(n, t') \<in> set ts. \<exists>t. t' = Some t \<and>
       (is_tcp t \<or> Protocol t = HTTP \<and> base \<noteq> [] \<and> valid_subdomain_label (Host t))) \<and>
    length (Listeners i') = length (Listeners i) + length (filter (\<lambda>(_, t). is_tcp (the t)) ts)"
proof (induction lsn base ts i opened rule: collect_tunnels.induct)
  case (3 lsn base name t ts i opened)
  then show ?case
    by (auto simp: is_tcp_def protocol_names split: if_splits sum.splits)
qed auto

lemma collect_tunnels_NilTunnel:
  "collect_tunnels lsn base ts i opened = (NilTunnel, i', opened') \<Longrightarrow> \<exists>n. (n, None) \<in> set ts"
  by (induction lsn base ts i opened rule: collect_tunnels.induct)
     (auto split: if_splits sum.splits)

lemma add_tunnels_Refused:
  assumes "fresh_listen lsn" and "add_tunnels lsn cfg ts i w = (Refused e, w')"
  shows "w' = w"
proof -
  let ?i0 = "\<lparr>Hosts = [], Listeners = []\<rparr> :: registry_item"
  obtain c x opened where col: "collect_tunnels lsn (BaseDomain cfg) ts ?i0 (open_listeners w) = (c, x, opened)"
    by (metis prod_cases3)
  obtain ls where "Listeners x = ls" "opened = open_listeners w \<union> set ls" "set ls \<inter> open_listeners w = {}"
    using collect_tunnels_grows [OF assms(1) col] by auto
  then have "close_listeners (Listeners x) (w\<lparr>open_listeners := opened\<rparr>) = w"
    by (simp add: close_listeners_def Un_Diff Diff_triv Int_commute)
  with assms(2) col show ?thesis
    by (auto simp: add_tunnels_def split: collected.splits sum.splits)
qed

lemma add_tunnels_Added:
  assumes "fresh_listen lsn" and "add_tunnels lsn cfg ts i w = (Added, w')"
  shows "\<exists>x. items (reg w') i = Some (Owned x) \<and> registry_set x i (reg w) = Inr (reg w') \<and>
    Hosts x = requested_hosts (BaseDomain cfg) ts \<and>
    (\<forall>(n, t') \<in> set ts. \<exists>t. t' = Some t \<and> (is_tcp t \<or> Protocol t = HTTP \<and>
       BaseDomain cfg \<noteq> [] \<and> valid_subdomain_label (Host t))) \<and>
    length (Listeners x) = length (filter (\<lambda>(_, t). is_tcp (the t)) ts) \<and>
    distinct (Listeners x) \<and> set (Listeners x) \<inter> open_listeners w = {} \<and>
    open_listeners w' = open_listeners w \<union> set (Listeners x) \<and>
    serving w' = serving w @ map (\<lambda>l. (l, i)) (Listeners x) \<and> pushes w' = pushes w"
proof -
  let ?i0 = "\<lparr>Hosts = [], Listeners = []\<rparr> :: registry_item"
  obtain c x opened where col: "collect_tunnels lsn (BaseDomain cfg) ts ?i0 (open_listeners w) = (c, x, opened)"
    by (metis prod_cases3)
  with assms(2) obtain r where c: "c = Collected" and r: "registry_set x i (reg w) = Inr r"
      and w': "w' = w\<lparr>reg := r, open_listeners := opened,
        serving := serving w @ map (\<lambda>l. (l, i)) (Listeners x)\<rparr>"
    by (auto simp: add_tunnels_def split: collected.splits sum.splits)
  have "items r i = Some (Owned x)" using registry_set_Inr(4) [OF r] by simp
  with r w' collect_tunnels_grows [OF assms(1) col] collect_tunnels_Collected [OF col [unfolded c]]
  show ?thesis by (intro exI [of _ x]) auto
qed

lemma add_tunnels_Panicked:
  "add_tunnels lsn cfg ts i w = (Panicked, w') \<Longrightarrow> \<exists>n. (n, None) \<in> set ts"
  by (auto simp: add_tunnels_def split: collected.splits sum.splits prod.splits
      dest: collect_tunnels_NilTunnel)

text \<open>
  C13: A handshake's tunnels are opened all together or not at all. If any of them is
  refused, or the registry refuses the whole item, the server is left exactly as it was:
  every listener opened on the way is closed again and no host is registered. If they
  are accepted, the client's item holds the public name of each http tunnel and one newly
  opened listener for each tcp tunnel, each served for this client. Only a nil tunnel
  ends it in any other way.
\<close>

theorem add_tunnels_all_or_nothing:
  assumes "fresh_listen lsn" and "add_tunnels lsn cfg ts i w = (res, w')"
  shows "case res of
      Refused e \<Rightarrow> w' = w
    | Added \<Rightarrow> \<exists>x. items (reg w') i = Some (Owned x) \<and> registry_set x i (reg w) = Inr (reg w') \<and>
        Hosts x = requested_hosts (BaseDomain cfg) ts \<and>
        length (Listeners x) = length (filter (\<lambda>(_, t). is_tcp (the t)) ts) \<and>
        distinct (Listeners x) \<and> set (Listeners x) \<inter> open_listeners w = {} \<and>
        open_listeners w' = open_listeners w \<union> set (Listeners x) \<and>
        serving w' = serving w @ map (\<lambda>l. (l, i)) (Listeners x)
    | Panicked \<Rightarrow> \<exists>n. (n, None) \<in> set ts"
proof (cases res)
  case Added
  with assms add_tunnels_Added show ?thesis by (force simp del: requested_hosts_simps)
next
  case (Refused e)
  with assms add_tunnels_Refused show ?thesis by auto
next
  case Panicked
  with assms add_tunnels_Panicked show ?thesis by auto
qed

text \<open>A small operating system, configuration and handshake, to apply the theorems to.\<close>

definition sample_listen :: net_listen where
  "sample_listen proto addr opened =
     (if length addr \<in> opened then Inl ''address already in use'' else Inr (length addr))"

lemma sample_listen_fresh: "fresh_listen sample_listen"
  by (simp add: fresh_listen_def sample_listen_def)

definition sample_config :: server_config where
  "sample_config = \<lparr>ListenAddr = '':5223'', AutoSubscribe = False, TLSConfig = True,
     Listener = None, BaseDomain = ''example.com'', HTTPAddr = ''127.0.0.1:9000''\<rparr>"

definition sample_tunnels :: "(string \<times> tunnel option) list" where
  "sample_tunnels =
     [(''web'', Some \<lparr>Protocol = HTTP, Host = ''app'', Auth = [], Addr = []\<rparr>),
      (''ssh'', Some \<lparr>Protocol = TCP, Host = [], Auth = [], Addr = '':22''\<rparr>)]"

definition sample_world :: world where
  "sample_world = \<lparr>reg = subscribe zero_ID new_registry, open_listeners = {}, closing = {}, serving = [], pushes = []\<rparr>"

lemma valid_app: "valid_subdomain_label ''app''"
  by code_simp

lemma full_host_app [simp]: "http_full_host ''example.com'' ''app'' = ''app.example.com''"
  by (simp add: http_full_host_def)

lemma sample_add:
  "add_tunnels sample_listen sample_config sample_tunnels zero_ID sample_world =
     (Added, \<lparr>reg = \<lparr>items = [zero_ID \<mapsto> Owned \<lparr>Hosts = [''app.example.com''], Listeners = [3]\<rparr>],
                     hosts = [''app.example.com'' \<mapsto> zero_ID]\<rparr>,
              open_listeners = {3}, closing = {}, serving = [(3, zero_ID)], pushes = []\<rparr>)"
  by (simp add: add_tunnels_def sample_tunnels_def sample_config_def sample_world_def
      sample_listen_def protocol_names valid_app registry_set_def subscribe_def new_registry_def eval_nat_numeral)

theorem add_tunnels_all_or_nothing_witness:
  "\<exists>w'. add_tunnels sample_listen sample_config sample_tunnels zero_ID sample_world = (Added, w') \<and>
     open_listeners w' = {3} \<and> (\<exists>x. items (reg w') zero_ID = Some (Owned x) \<and> Hosts x = [''app.example.com''])"
  using add_tunnels_all_or_nothing [OF sample_listen_fresh sample_add] sample_add
  by (auto simp: sample_tunnels_def sample_config_def protocol_names)

text \<open>
  A tunnel sent as JSON \<open>null\<close> reaches the loop as a nil pointer whose protocol is
  read without a test: if it comes first in the range, the handshake of an otherwise
  entitled client ends in a panic, whatever the configuration and the other tunnels are.
\<close>

theorem null_tunnel_panics:
  "fst (add_tunnels lsn cfg ((name, None) # ts) i w) = Panicked"
  by (simp add: add_tunnels_def)

section \<open>Disconnecting\<close>

lemma disconnected_simps [simp]:
  "reg (disconnected i w) = snd (registry_clear i (reg w))"
  "open_listeners (disconnected i w) = open_listeners w -
     (case items (reg w) i of Some (Owned x) \<Rightarrow> set (Listeners x) | _ \<Rightarrow> {})"
  "serving (disconnected i w) = serving w" "pushes (disconnected i w) = pushes w"
  by (auto simp: disconnected_def close_listeners_def registry_clear_def
      split: option.split slot.split)

lemma released_simps [simp]:
  "reg (released i w) = snd (registry_clear i (reg w))"
  "open_listeners (released i w) = open_listeners w"
  "closing (released i w) = closing w \<union> (case items (reg w) i of Some (Owned x) \<Rightarrow> set (Listeners x) | _ \<Rightarrow> {})"
  "serving (released i w) = serving w" "pushes (released i w) = pushes w"
  by (auto simp: released_def registry_clear_def split: option.split slot.split)

text \<open>The parts of \<open>disconnected\<close>, with nothing in between, are the whole.\<close>

lemma close_closing_fold:
  "fold close_closing ls w = w\<lparr>open_listeners := open_listeners w - set ls, closing := closing w - set ls\<rparr>"
  by (induction ls arbitrary: w) (simp_all add: close_closing_def Diff_insert2 [symmetric])

lemma disconnected_parts:
  assumes "closing w = {}"
  shows "disconnected i w = fold close_closing
    (case items (reg w) i of Some (Owned x) \<Rightarrow> Listeners x | _ \<Rightarrow> []) (released i w)"
  using assms
  by (auto simp: close_closing_fold disconnected_def released_def close_listeners_def registry_clear_def
      split: option.split slot.split)

text \<open>
  The server's global invariant: the host table agrees with the items, every listener an
  item records is open, and no listener belongs to two clients.
\<close>

definition item_listeners :: "registry \<Rightarrow> ID \<Rightarrow> listener set" where
  "item_listeners r i = (case items r i of Some (Owned x) \<Rightarrow> set (Listeners x) | _ \<Rightarrow> {})"

definition world_ok :: "world \<Rightarrow> bool" where
  "world_ok w \<longleftrightarrow> registry_ok (reg w) \<and>
     (\<forall>i. item_listeners (reg w) i \<subseteq> open_listeners w) \<and>
     (\<forall>i j. i \<noteq> j \<longrightarrow> item_listeners (reg w) i \<inter> item_listeners (reg w) j = {})"

lemma item_listeners_clear:
  "item_listeners (snd (registry_clear j r)) = (item_listeners r)(j := {})"
  by (rule ext) (auto simp: item_listeners_def registry_clear_def split: option.split slot.split)

lemma item_listeners_subscribe [simp]: "item_listeners (subscribe j r) = item_listeners r"
  by (rule ext) (auto simp: item_listeners_def subscribe_def split: option.split)

lemma item_listeners_set:
  "registry_set x j r = Inr r' \<Longrightarrow> item_listeners r' = (item_listeners r)(j := set (Listeners x))"
  by (rule ext) (auto simp: item_listeners_def registry_set_Inr(4))

lemma item_listeners_unsubscribe:
  "item_listeners (snd (unsubscribe j r)) = (item_listeners r)(j := {})"
  by (rule ext) (auto simp: item_listeners_def unsubscribe_def split: option.split slot.split)

lemma world_ok_disconnected [inv_intros]: "world_ok w \<Longrightarrow> world_ok (disconnected i w)"
  by (fastforce simp: world_ok_def item_listeners_clear item_listeners_def [symmetric]
      intro: inv_intros)

lemma world_ok_subscribe [inv_intros]:
  "world_ok w \<Longrightarrow> world_ok (w\<lparr>reg := subscribe i (reg w)\<rparr>)"
  by (simp add: world_ok_def inv_intros)

lemma world_ok_unsubscribe [inv_intros]:
  "world_ok w \<Longrightarrow> world_ok (w\<lparr>reg := snd (unsubscribe i (reg w))\<rparr>)"
  by (auto simp: world_ok_def item_listeners_unsubscribe intro: inv_intros)

lemma world_ok_pushes [simp]: "world_ok (w\<lparr>pushes := ps\<rparr>) \<longleftrightarrow> world_ok w"
  by (simp add: world_ok_def)

lemma world_ok_add_tunnels [inv_intros]:
  assumes ok: "world_ok w" and fresh: "fresh_listen lsn"
    and add: "add_tunnels lsn cfg ts i w = (res, w')" and res: "res \<noteq> Panicked"
  shows "world_ok w'"
proof (cases res)
  case (Refused e)
  with add_tunnels_Refused [OF fresh add [unfolded Refused]] ok show ?thesis by simp
next
  case Added
  then obtain x where x: "registry_set x i (reg w) = Inr (reg w')"
      "set (Listeners x) \<inter> open_listeners w = {}"
      "open_listeners w' = open_listeners w \<union> set (Listeners x)"
    using add_tunnels_Added [OF fresh add [unfolded Added]] by blast
  have sub: "item_listeners (reg w) j \<subseteq> open_listeners w" for j using ok by (simp add: world_ok_def)
  have disj: "set (Listeners x) \<inter> item_listeners (reg w) j = {}" for j
    using sub [of j] x(2) by blast
  have "registry_ok (reg w')" using ok x(1) by (auto simp: world_ok_def intro: inv_intros)
  with ok sub disj x(3) show ?thesis
    by (auto simp: world_ok_def item_listeners_set [OF x(1)] Int_commute)
next
  case Panicked
  with res show ?thesis by simp
qed

section \<open>A client that comes back\<close>

lemma registry_clear_set:
  assumes "registry_set x i r = Inr r'"
  shows "registry_clear i r' = (Some x, r)"
proof -
  note set = registry_set_Inr [OF assms]
  have "items r' i = Some (Owned x)" by (simp add: set(4))
  moreover have "(items r')(i \<mapsto> Void) = items r" using set(1,4) by auto
  moreover have "map_delete_all trim_port (Hosts x) (hosts r') = hosts r"
    by (rule ext) (use set(2,3) in \<open>auto simp: map_delete_all_apply item_keys_def\<close>)
  ultimately show ?thesis by (simp add: registry_clear_def)
qed

lemma add_tunnels_again:
  assumes "add_tunnels lsn cfg ts i w = (Added, w')" "reg v = reg w" "open_listeners v = open_listeners w"
  shows "\<exists>v'. add_tunnels lsn cfg ts i v = (Added, v') \<and> reg v' = reg w' \<and> open_listeners v' = open_listeners w'"
  using assms by (auto simp: add_tunnels_def split: prod.splits collected.splits sum.splits)

text \<open>
  C14: Leaving undoes a registration exactly: after \<open>disconnected\<close> the two tables of the registry
  and the set of open listeners are what they were before \<open>addTunnels\<close>, so the same handshake
  is accepted again, with the same names and listeners.
\<close>

theorem disconnect_undoes_registration:
  assumes "fresh_listen lsn" and "add_tunnels lsn cfg ts i w = (Added, w')"
  shows "reg (disconnected i w') = reg w \<and> open_listeners (disconnected i w') = open_listeners w \<and>
    (\<exists>w''. add_tunnels lsn cfg ts i (disconnected i w') = (Added, w'') \<and>
      reg w'' = reg w' \<and> open_listeners w'' = open_listeners w')"
proof -
  obtain x where x: "registry_set x i (reg w) = Inr (reg w')"
      "set (Listeners x) \<inter> open_listeners w = {}" "open_listeners w' = open_listeners w \<union> set (Listeners x)"
    using add_tunnels_Added [OF assms] by blast
  then have "reg (disconnected i w') = reg w \<and> open_listeners (disconnected i w') = open_listeners w"
    using registry_clear_set [OF x(1)] by (auto simp: disconnected_def close_listeners_def)
  with add_tunnels_again [OF assms(2), of "disconnected i w'"] show ?thesis by blast
qed

theorem disconnect_undoes_registration_witness:
  "open_listeners (snd (add_tunnels sample_listen sample_config sample_tunnels zero_ID sample_world)) = {3} \<and>
   open_listeners (disconnected zero_ID
     (snd (add_tunnels sample_listen sample_config sample_tunnels zero_ID sample_world))) = {}"
proof -
  have "open_listeners sample_world = {}" by (simp add: sample_world_def)
  then show ?thesis
    using disconnect_undoes_registration [OF sample_listen_fresh sample_add] unfolding sample_add
    by simp
qed

end
