(* ===== verification/ServerClients.thy ===== *)
theory ServerClients
  imports ServerTunnels
begin

text \<open>
  The life of a client connection on the server (server.go): \<open>handleClient\<close> from accept to
  registration or rejection, with the pushes it sends, and \<open>Unsubscribe\<close>. What comes from
  outside (the TLS handshake, the answers of the HTTP/2 connection, the decoded response
  body) is a record of answers; \<open>before\<close> and \<open>waiting\<close> are what the server's other
  goroutines do to the shared state between the registration of the connection and the
  handshake request, and while that request waits for its response.
\<close>

section \<open>Operations\<close>

datatype body = BodyError string | BodyTunnels "(string \<times> tunnel option) list"

datatype response = DoFailed string | Response nat int body

record client_env =
  is_tls :: bool
  tls_handshake :: "string option"
  peer_certs :: "byte list list"
  deadline_error :: "string option"
  ping :: "nat \<Rightarrow> bool"
  new_client :: "string + nat"
  request_error :: "string option"
  can_take :: "nat \<Rightarrow> bool"
  sendable :: "push \<Rightarrow> bool"
  response :: "nat \<Rightarrow> response"
  before :: "server \<Rightarrow> server"
  waiting :: "server \<Rightarrow> server"

definition check_response :: "response \<Rightarrow> reject_reason + (string \<times> tunnel option) list" where
  "check_response r =
     (case r of
        DoFailed err \<Rightarrow> Inl (RoundTripFailed err)
      | Response status content_length b \<Rightarrow>
          if status \<noteq> 200 then Inl (BadStatus status)
          else if content_length = 0 then Inl EmptyContent
          else (case b of
                  BodyError err \<Rightarrow> Inl (DecodeFailed err)
                | BodyTunnels ts \<Rightarrow> if ts = [] then Inl NoTunnels else Inr ts))"

text \<open>
  \<open>pushToClient\<close>: best effort, through the same pool as every request; the connection
  that gets the push is the one pooled for the client at that moment. The transport refuses a
  request with a header value that is not valid (an error text with a control character): such
  a push goes nowhere, which nobody notices. \<open>may\<close> says what the transport sends.
\<close>

definition push_to_client :: "(string \<Rightarrow> string) \<Rightarrow> (nat \<Rightarrow> bool) \<Rightarrow> (push \<Rightarrow> bool) \<Rightarrow> ID \<Rightarrow> push \<Rightarrow> server \<Rightarrow> server" where
  "push_to_client uni can may identifier m p =
     (case get_client_conn uni (Some disconnected) can id (pool_addr identifier) p of
        (Inl _, q) \<Rightarrow> q
      | (Inr cc, q) \<Rightarrow> if may m then q\<lparr>env := (env q)\<lparr>pushes := pushes (env q) @ [(cc, m)]\<rparr>\<rparr> else q)"

definition notify_error :: "(string \<Rightarrow> string) \<Rightarrow> (nat \<Rightarrow> bool) \<Rightarrow> (push \<Rightarrow> bool) \<Rightarrow> reject_reason \<Rightarrow> ID \<Rightarrow> server \<Rightarrow> server" where
  "notify_error uni can may err identifier p = push_to_client uni can may identifier (ErrorPush err) p"

definition tunnel_hosts :: "string \<Rightarrow> (string \<times> tunnel option) list \<Rightarrow> (string \<times> string) list" where
  "tunnel_hosts base ts =
     map (\<lambda>(name, t). (name, http_full_host base (Host (the t))))
       (filter (\<lambda>(name, t). Protocol (the t) = HTTP) ts)"

definition notify_tunnel_info :: "(string \<Rightarrow> string) \<Rightarrow> (nat \<Rightarrow> bool) \<Rightarrow> (push \<Rightarrow> bool) \<Rightarrow> (string \<times> string) list \<Rightarrow> ID
    \<Rightarrow> server \<Rightarrow> server" where
  "notify_tunnel_info uni can may hs identifier p =
     (if hs = [] then p else push_to_client uni can may identifier (TunnelInfoPush hs) p)"

datatype client_result = Connected | Rejected reject_reason | Crashed

text \<open>The \<open>reject\<close> label, for a connection that is in the pool.\<close>

definition reject_pooled :: "(string \<Rightarrow> string) \<Rightarrow> (nat \<Rightarrow> bool) \<Rightarrow> (push \<Rightarrow> bool) \<Rightarrow> reject_reason \<Rightarrow> ID \<Rightarrow> server
    \<Rightarrow> client_result \<times> server" where
  "reject_pooled uni can may err identifier p =
     (Rejected err,
      delete_conn uni (Some disconnected) identifier (notify_error uni can may err identifier p))"

definition client_handshake :: "(string \<Rightarrow> string) \<Rightarrow> net_listen \<Rightarrow> server_config \<Rightarrow> client_env \<Rightarrow> ID
    \<Rightarrow> server \<Rightarrow> client_result \<times> server" where
  "client_handshake uni lsn cfg x identifier p =
     (case request_error x of
        Some err \<Rightarrow> reject_pooled uni (can_take x) (sendable x) (RequestFailed err) identifier p
      | None \<Rightarrow>
          (case get_client_conn uni (Some disconnected) (can_take x) id (pool_addr identifier) (before x p) of
             (Inl err, p) \<Rightarrow> reject_pooled uni (can_take x) (sendable x) (NoConnection err) identifier p
           | (Inr cc, p) \<Rightarrow>
               let p = waiting x p in
               (case check_response (response x cc) of
                  Inl err \<Rightarrow> reject_pooled uni (can_take x) (sendable x) err identifier p
                | Inr ts \<Rightarrow>
                    (case add_tunnels lsn cfg ts identifier (env p) of
                       (Panicked, w) \<Rightarrow> (Crashed, p\<lparr>env := w\<rparr>)
                     | (Refused err, w) \<Rightarrow>
                         reject_pooled uni (can_take x) (sendable x) (TunnelsRefused err) identifier (p\<lparr>env := w\<rparr>)
                     | (Added, w) \<Rightarrow>
                         (Connected, notify_tunnel_info uni (can_take x) (sendable x)
                            (tunnel_hosts (BaseDomain cfg) ts) identifier (p\<lparr>env := w\<rparr>))))))"

definition handle_client :: "(string \<Rightarrow> string) \<Rightarrow> (byte list \<Rightarrow> byte list) \<Rightarrow> net_listen \<Rightarrow> server_config
    \<Rightarrow> client_env \<Rightarrow> nat \<Rightarrow> server \<Rightarrow> client_result \<times> server" where
  "handle_client uni sha256 lsn cfg x c p =
     (if \<not> is_tls x then (Rejected InvalidConnType, close_conn c p)
      else case peer_id sha256 (tls_handshake x) (peer_certs x) of
        Inl err \<Rightarrow> (Rejected (CertificateError err), close_conn c p)
      | Inr identifier \<Rightarrow>
          let known = (AutoSubscribe cfg \<or> is_subscribed (reg (env p)) identifier);
              p = (if AutoSubscribe cfg
                   then p\<lparr>env := (env p)\<lparr>reg := subscribe identifier (reg (env p))\<rparr>\<rparr> else p)
          in if \<not> known then (Rejected UnknownClient, close_conn c p)
             else case deadline_error x of
               Some err \<Rightarrow> (Rejected (DeadlineFailed err), close_conn c p)
             | None \<Rightarrow>
                 (case add_conn uni (Some disconnected) (ping x) (new_client x) c identifier p of
                    (Some err, p) \<Rightarrow> (Rejected (AddConnFailed err), close_conn c p)
                  | (None, p) \<Rightarrow> client_handshake uni lsn cfg x identifier p))"

definition server_ping :: "(nat \<Rightarrow> bool) \<Rightarrow> int \<Rightarrow> ID \<Rightarrow> server \<Rightarrow> int \<times> pool_error option" where
  "server_ping png elapsed identifier p = pool_ping png elapsed identifier p"

text \<open>\<open>Server.Unsubscribe\<close>, with what other goroutines do between its two steps.\<close>

definition server_unsubscribe :: "(string \<Rightarrow> string) \<Rightarrow> (server \<Rightarrow> server) \<Rightarrow> ID \<Rightarrow> server
    \<Rightarrow> slot option \<times> server" where
  "server_unsubscribe uni between identifier p =
     (let p = between (delete_conn uni (Some disconnected) identifier p);
          (item, r) = unsubscribe identifier (reg (env p))
      in (item, p\<lparr>env := (env p)\<lparr>reg := r\<rparr>\<rparr>))"

section \<open>Pushes\<close>

lemma push_to_client_conns:
  "conns (push_to_client uni can may i m p) =
     (case conns p (pool_addr i) of
        Some cp \<Rightarrow> if can (client_conn cp) then conns p else (conns p)(pool_addr i := None)
      | None \<Rightarrow> conns p)"
  by (auto simp: push_to_client_def get_client_conn_def split: option.split)

lemma push_to_client_ok:
  "conns p (pool_addr i) = Some cp \<Longrightarrow> can (client_conn cp) \<Longrightarrow>
     push_to_client uni can may i m p
       = (if may m then p\<lparr>env := (env p)\<lparr>pushes := pushes (env p) @ [(client_conn cp, m)]\<rparr>\<rparr> else p)"
  by (simp add: push_to_client_def get_client_conn_def)

lemma push_to_client_closed: "set (closed_conns p) \<subseteq> set (closed_conns (push_to_client uni can may i m p))"
  by (auto simp: push_to_client_def get_client_conn_def split: option.split)

lemma push_to_client_env:
  "env (push_to_client uni can may i m p) =
     (case conns p (pool_addr i) of
        Some cp \<Rightarrow> if can (client_conn cp)
                     then (if may m then (env p)\<lparr>pushes := pushes (env p) @ [(client_conn cp, m)]\<rparr> else env p)
                     else disconnected i (env p)
      | None \<Rightarrow> env p)"
  by (auto simp: push_to_client_def get_client_conn_def pool_close_env split: option.split)

lemma push_to_client_reg:
  "reg (env (push_to_client uni can may i m p)) =
     (case conns p (pool_addr i) of
        Some cp \<Rightarrow> if can (client_conn cp) then reg (env p) else snd (registry_clear i (reg (env p)))
      | None \<Rightarrow> reg (env p))"
  by (auto simp: push_to_client_env split: option.split)

section \<open>The server's invariant\<close>

definition server_ok :: "server \<Rightarrow> bool" where
  "server_ok p \<longleftrightarrow> pool_ok p \<and> world_ok (env p)"

lemma pool_ok_env [simp]: "pool_ok (p\<lparr>env := w\<rparr>) \<longleftrightarrow> pool_ok p"
  by (simp add: pool_ok_def)

lemma server_ok_env: "server_ok p \<Longrightarrow> world_ok w \<Longrightarrow> server_ok (p\<lparr>env := w\<rparr>)"
  by (simp add: server_ok_def)

lemma server_ok_close_conn [inv_intros]: "server_ok p \<Longrightarrow> server_ok (close_conn c p)"
  by (simp add: server_ok_def pool_ok_def)

lemma server_ok_pool_close [inv_intros]:
  "server_ok p \<Longrightarrow> server_ok (pool_close uni (Some disconnected) cp a p)"
  unfolding server_ok_def
  by (auto intro: inv_intros) (simp add: pool_close_def Let_def inv_intros)

lemma server_ok_delete [inv_intros]:
  "server_ok p \<Longrightarrow> server_ok (delete_conn uni (Some disconnected) i p)"
  by (auto simp: delete_conn_def Let_def split: option.split intro: inv_intros)

lemma server_ok_mark_dead [inv_intros]:
  "server_ok p \<Longrightarrow> server_ok (mark_dead uni (Some disconnected) c order p)"
  by (induction uni "Some disconnected" c order p rule: mark_dead.induct)
     (auto split: option.split intro: inv_intros)

lemma server_ok_get [inv_intros]:
  "\<lbrakk>server_ok p; get_client_conn uni (Some disconnected) can id a p = (r, q)\<rbrakk> \<Longrightarrow> server_ok q"
  by (auto simp: get_client_conn_def Let_def split: option.splits if_splits intro: inv_intros)

lemma server_ok_push [inv_intros]: "server_ok p \<Longrightarrow> server_ok (push_to_client uni can may i m p)"
proof -
  assume ok: "server_ok p"
  obtain r q where rq: "get_client_conn uni (Some disconnected) can id (pool_addr i) p = (r, q)"
    by (cases "get_client_conn uni (Some disconnected) can id (pool_addr i) p")
  with ok have "server_ok q" by (rule server_ok_get)
  then have "server_ok (q\<lparr>env := (env q)\<lparr>pushes := ps\<rparr>\<rparr>)" for ps
    by (simp add: server_ok_def)
  with \<open>server_ok q\<close> rq show ?thesis
    by (cases r) (simp_all add: push_to_client_def)
qed

lemma server_ok_reject [inv_intros]:
  "server_ok p \<Longrightarrow> server_ok (snd (reject_pooled uni can may err i p))"
  by (simp add: reject_pooled_def notify_error_def inv_intros)

lemma server_ok_add_conn [inv_intros]:
  assumes "server_ok p" "fresh_client ncc p"
    and "add_conn uni (Some disconnected) png ncc c i p = (r, q)"
  shows "server_ok q"
proof -
  have "pool_ok q" using pool_ok_add [of p ncc] assms by (metis server_ok_def snd_conv)
  moreover have "world_ok (env q)"
    using assms by (auto simp: add_conn_def put_conn_def Let_def server_ok_def pool_close_env
        split: option.splits sum.splits if_splits intro: inv_intros)
  ultimately show ?thesis by (simp add: server_ok_def)
qed

definition keeps_server_ok :: "(server \<Rightarrow> server) \<Rightarrow> bool" where
  "keeps_server_ok f \<longleftrightarrow> (\<forall>p. server_ok p \<longrightarrow> server_ok (f p))"

lemma server_ok_handshake [inv_intros]:
  assumes "server_ok p" "fresh_listen lsn" "keeps_server_ok (before x)" "keeps_server_ok (waiting x)"
    and "client_handshake uni lsn cfg x i p = (res, q)" "res \<noteq> Crashed"
  shows "server_ok q"
proof (cases "request_error x")
  case (Some err)
  then have "q = snd (reject_pooled uni (can_take x) (sendable x) (RequestFailed err) i p)"
    using assms(5) by (simp add: client_handshake_def)
  then show ?thesis by (simp add: server_ok_reject [OF assms(1)])
next
  case None
  obtain g p1 where g: "get_client_conn uni (Some disconnected) (can_take x) id (pool_addr i) (before x p) = (g, p1)"
    by (cases "get_client_conn uni (Some disconnected) (can_take x) id (pool_addr i) (before x p)")
  have ok1: "server_ok p1" using assms(1,3) g by (auto simp: keeps_server_ok_def intro: inv_intros)
  then have ok2: "server_ok (waiting x p1)" using assms(4) by (simp add: keeps_server_ok_def)
  show ?thesis
  proof (cases g)
    case (Inl err)
    with assms(5) None g have "q = snd (reject_pooled uni (can_take x) (sendable x) (NoConnection err) i p1)"
      by (simp add: client_handshake_def)
    then show ?thesis by (simp add: server_ok_reject [OF ok1])
  next
    case (Inr cc)
    show ?thesis
    proof (cases "check_response (response x cc)")
      case (Inl err)
      with assms(5) None g Inr have "q = snd (reject_pooled uni (can_take x) (sendable x) err i (waiting x p1))"
        by (simp add: client_handshake_def)
      then show ?thesis by (simp add: server_ok_reject [OF ok2])
    next
      case ts: (Inr ts)
      obtain a w where a: "add_tunnels lsn cfg ts i (env (waiting x p1)) = (a, w)"
        by (cases "add_tunnels lsn cfg ts i (env (waiting x p1))")
      have "a \<noteq> Panicked" using assms(5,6) None g Inr ts a by (auto simp: client_handshake_def Let_def)
      with a ok2 assms(2) have ok3: "server_ok ((waiting x p1)\<lparr>env := w\<rparr>)"
        by (auto simp: server_ok_def intro: world_ok_add_tunnels)
      show ?thesis
      proof (cases a)
        case Added
        with assms(5) None g Inr ts a show ?thesis
          using ok3 by (auto simp: client_handshake_def Let_def notify_tunnel_info_def
              intro: server_ok_push)
      next
        case (Refused err)
        with assms(5) None g Inr ts a
        have "q = snd (reject_pooled uni (can_take x) (sendable x) (TunnelsRefused err) i ((waiting x p1)\<lparr>env := w\<rparr>))"
          by (simp add: client_handshake_def)
        then show ?thesis by (simp add: server_ok_reject [OF ok3])
      next
        case Panicked
        with \<open>a \<noteq> Panicked\<close> show ?thesis by simp
      qed
    qed
  qed
qed

text \<open>The three ways through \<open>handleClient\<close>: before, at and after the pool.\<close>

lemma handle_client_cases [consumes 1, case_names closed refused pooled]:
  assumes "handle_client uni sha256 lsn cfg x c p = (res, q)"
  obtains p1 e where "res = Rejected e" "q = close_conn c p1" "conns p1 = conns p"
      "p1 = p \<or> (\<exists>i. p1 = p\<lparr>env := (env p)\<lparr>reg := subscribe i (reg (env p))\<rparr>\<rparr>)"
  | i p1 e p2 where "peer_id sha256 (tls_handshake x) (peer_certs x) = Inr i" "conns p1 = conns p"
      "add_conn uni (Some disconnected) (ping x) (new_client x) c i p1 = (Some e, p2)"
      "res = Rejected (AddConnFailed e)" "q = close_conn c p2"
      "p1 = p \<or> p1 = p\<lparr>env := (env p)\<lparr>reg := subscribe i (reg (env p))\<rparr>\<rparr>"
  | i p1 p2 where "peer_id sha256 (tls_handshake x) (peer_certs x) = Inr i" "conns p1 = conns p"
      "add_conn uni (Some disconnected) (ping x) (new_client x) c i p1 = (None, p2)"
      "client_handshake uni lsn cfg x i p2 = (res, q)"
      "p1 = p \<or> p1 = p\<lparr>env := (env p)\<lparr>reg := subscribe i (reg (env p))\<rparr>\<rparr>"
proof (cases "is_tls x")
  case False
  with assms show thesis by (intro that(1) [of InvalidConnType p]) (auto simp: handle_client_def)
next
  case tls: True
  show thesis
  proof (cases "peer_id sha256 (tls_handshake x) (peer_certs x)")
    case (Inl err)
    with tls assms show thesis
      by (intro that(1) [of "CertificateError err" p]) (auto simp: handle_client_def)
  next
    case (Inr i)
    define p1 where "p1 = (if AutoSubscribe cfg
      then p\<lparr>env := (env p)\<lparr>reg := subscribe i (reg (env p))\<rparr>\<rparr> else p)"
    have p1: "conns p1 = conns p" "p1 = p \<or> p1 = p\<lparr>env := (env p)\<lparr>reg := subscribe i (reg (env p))\<rparr>\<rparr>"
      by (auto simp: p1_def)
    obtain a p2 where a: "add_conn uni (Some disconnected) (ping x) (new_client x) c i p1 = (a, p2)"
      by (cases "add_conn uni (Some disconnected) (ping x) (new_client x) c i p1")
    let ?known = "AutoSubscribe cfg \<or> is_subscribed (reg (env p)) i"
    have hc: "(res, q) = (if \<not> ?known then (Rejected UnknownClient, close_conn c p1)
        else case deadline_error x of
          Some err \<Rightarrow> (Rejected (DeadlineFailed err), close_conn c p1)
        | None \<Rightarrow> (case (a, p2) of (Some e, p2) \<Rightarrow> (Rejected (AddConnFailed e), close_conn c p2)
            | (None, p2) \<Rightarrow> client_handshake uni lsn cfg x i p2))"
      unfolding assms [symmetric] a [symmetric] p1_def handle_client_def
      by (simp only: Let_def Inr tls sum.case if_True if_False not_True_eq_False)
    consider (known) "res = Rejected UnknownClient" "q = close_conn c p1"
      | (deadline) err where "res = Rejected (DeadlineFailed err)" "q = close_conn c p1"
      | (added) "case a of Some e \<Rightarrow> res = Rejected (AddConnFailed e) \<and> q = close_conn c p2
          | None \<Rightarrow> client_handshake uni lsn cfg x i p2 = (res, q)"
      using hc by (auto split: if_splits option.splits)
    then show thesis
    proof cases
      case known
      with p1 show thesis by (intro that(1) [of UnknownClient p1]) auto
    next
      case (deadline err)
      with p1 show thesis by (intro that(1) [of "DeadlineFailed err" p1]) auto
    next
      case added
      show thesis
      proof (cases a)
        case None
        with added a Inr p1 show thesis by (intro that(3) [of i p1 p2]) auto
      next
        case (Some e)
        with added a Inr p1 show thesis by (intro that(2) [of i p1 e p2]) auto
      qed
    qed
  qed
qed

lemma server_ok_subscribe [inv_intros]:
  "server_ok p \<Longrightarrow> server_ok (p\<lparr>env := (env p)\<lparr>reg := subscribe i (reg (env p))\<rparr>\<rparr>)"
  by (auto simp: server_ok_def intro: world_ok_subscribe)

lemma server_ok_handle_client [inv_intros]:
  assumes "server_ok p" "fresh_listen lsn" "fresh_client (new_client x) p"
    and "keeps_server_ok (before x)" "keeps_server_ok (waiting x)"
    and "handle_client uni sha256 lsn cfg x c p = (res, q)" "res \<noteq> Crashed"
  shows "server_ok q"
  using assms(6)
proof (cases rule: handle_client_cases)
  case (closed p1 e)
  with assms(1) show ?thesis by (auto intro: server_ok_close_conn server_ok_subscribe)
next
  case (refused i p1 e p2)
  have "server_ok p1" "fresh_client (new_client x) p1"
    using refused(2,6) assms(1,3) by (auto simp: fresh_client_def intro: server_ok_subscribe)
  with refused(3,5) show ?thesis by (auto intro: server_ok_close_conn server_ok_add_conn)
next
  case (pooled i p1 p2)
  have "server_ok p1" "fresh_client (new_client x) p1"
    using pooled(2,5) assms(1,3) by (auto simp: fresh_client_def intro: server_ok_subscribe)
  then have "server_ok p2" using pooled(3) by (rule server_ok_add_conn)
  with pooled(4) assms show ?thesis by (blast intro: server_ok_handshake)
qed

lemma server_ok_unsubscribe [inv_intros]:
  assumes "server_ok p" "keeps_server_ok between"
  shows "server_ok (snd (server_unsubscribe uni between i p))"
proof -
  have "server_ok (between (delete_conn uni (Some disconnected) i p))"
    using assms server_ok_delete by (auto simp: keeps_server_ok_def)
  then show ?thesis
    by (auto simp: server_unsubscribe_def Let_def server_ok_def split: prod.split
        intro: world_ok_unsubscribe dest: sym) (metis snd_conv world_ok_unsubscribe)
qed

section \<open>Reachable servers\<close>

definition new_server :: server where
  "new_server = new_pool \<lparr>reg = new_registry, open_listeners = {}, closing = {}, serving = [], pushes = []\<rparr>"

lemma server_ok_new: "server_ok new_server"
  using registry_ok_new
  by (simp add: server_ok_def new_server_def pool_ok_def world_ok_def item_listeners_def)
     (simp add: new_registry_def)

inductive server_step :: "(string \<Rightarrow> string) \<Rightarrow> (byte list \<Rightarrow> byte list) \<Rightarrow> net_listen \<Rightarrow> server_config
    \<Rightarrow> server \<Rightarrow> server \<Rightarrow> bool" for uni sha256 lsn cfg where
  step_handle: "\<lbrakk>handle_client uni sha256 lsn cfg x c p = (res, q); res \<noteq> Crashed;
      fresh_client (new_client x) p; keeps_server_ok (before x); keeps_server_ok (waiting x)\<rbrakk> \<Longrightarrow>
    server_step uni sha256 lsn cfg p q"
| step_allow: "server_step uni sha256 lsn cfg p (p\<lparr>env := (env p)\<lparr>reg := subscribe i (reg (env p))\<rparr>\<rparr>)"
| step_remove: "keeps_server_ok between \<Longrightarrow>
    server_step uni sha256 lsn cfg p (snd (server_unsubscribe uni between i p))"
| step_dead: "server_step uni sha256 lsn cfg p (mark_dead uni (Some disconnected) cc order p)"
| step_evict: "get_client_conn uni (Some disconnected) can id a p = (r, q) \<Longrightarrow>
    server_step uni sha256 lsn cfg p q"

lemma server_step_ok:
  assumes "fresh_listen lsn" "server_step uni sha256 lsn cfg p q" "server_ok p"
  shows "server_ok q"
  using assms(2)
proof (cases rule: server_step.cases)
  case (step_handle x c res)
  with assms show ?thesis by (blast intro: server_ok_handle_client)
next
  case (step_allow i)
  with assms(3) show ?thesis by (auto simp: server_ok_def intro: world_ok_subscribe)
next
  case (step_remove between i)
  with assms(3) show ?thesis by (simp add: server_ok_unsubscribe)
next
  case (step_dead cc order)
  with assms(3) show ?thesis by (simp add: server_ok_mark_dead)
next
  case (step_evict can a r)
  with assms(3) show ?thesis by (blast intro: server_ok_get)
qed

interpretation server_runs: invariant_system "\<lambda>p. p = new_server"
    "\<lambda>p q. fresh_listen lsn \<and> server_step uni sha256 lsn cfg p q" server_ok
    for uni sha256 lsn cfg
  by unfold_locales (auto simp: server_ok_new intro: server_step_ok)

text \<open>
  Whatever clients connect, disconnect, are admitted, rejected or removed, and
  however their goroutines interleave around a handshake, the server's tables stay
  consistent: a host resolves to a client exactly if that client's item claims it, every
  listener an item records is open and belongs to no other client, and every pooled
  connection is filed under the address of a client.
\<close>

theorem server_consistent:
  assumes "fresh_listen lsn" and "(server_step uni sha256 lsn cfg)\<^sup>*\<^sup>* new_server p"
  shows "(\<forall>k i. hosts (reg (env p)) k = Some i \<longleftrightarrow>
            (\<exists>x. items (reg (env p)) i = Some (Owned x) \<and> k \<in> trim_port ` set (Hosts x))) \<and>
         (\<forall>i j x y. i \<noteq> j \<and> items (reg (env p)) i = Some (Owned x) \<and>
            items (reg (env p)) j = Some (Owned y) \<longrightarrow> set (Listeners x) \<inter> set (Listeners y) = {}) \<and>
         (\<forall>i x. items (reg (env p)) i = Some (Owned x) \<longrightarrow> set (Listeners x) \<subseteq> open_listeners (env p)) \<and>
         (\<forall>a cp. conns p a = Some cp \<longrightarrow> (\<exists>i. a = pool_addr i))"
proof -
  have "(\<lambda>p q. fresh_listen lsn \<and> server_step uni sha256 lsn cfg p q)\<^sup>*\<^sup>* new_server p"
    using assms by (simp)
  then have ok: "server_ok p" using server_runs.reachable_inv by blast
  have listeners: "item_listeners (reg (env p)) i = set (Listeners x)"
    if "items (reg (env p)) i = Some (Owned x)" for i x
    using that by (simp add: item_listeners_def)
  show ?thesis
  proof (intro conjI allI impI)
    show "hosts (reg (env p)) k = Some i \<longleftrightarrow>
        (\<exists>x. items (reg (env p)) i = Some (Owned x) \<and> k \<in> trim_port ` set (Hosts x))" for k i
      using ok registry_okD [of "reg (env p)" k i]
      by (auto simp: server_ok_def world_ok_def held_def item_keys_def split: option.splits slot.splits)
    show "set (Listeners x) \<inter> set (Listeners y) = {}"
      if "i \<noteq> j \<and> items (reg (env p)) i = Some (Owned x) \<and> items (reg (env p)) j = Some (Owned y)"
      for i j x y
      using ok that listeners [of i x] listeners [of j y] by (metis server_ok_def world_ok_def)
    show "set (Listeners x) \<subseteq> open_listeners (env p)"
      if "items (reg (env p)) i = Some (Owned x)" for i x
      using ok listeners [OF that] by (metis server_ok_def world_ok_def)
    show "\<exists>i. a = pool_addr i" if "conns p a = Some cp" for a cp
      using ok that pool_ok_key by (auto simp: server_ok_def)
  qed
qed

section \<open>Admission and rejection\<close>

text \<open>
  C23: Only entitled clients change anything. A connection that is not TLS, whose
  handshake failed, whose peer showed no or several certificates, or (unless every client
  is subscribed automatically) whose certificate's identifier is not subscribed, is closed
  and has no other effect on the pool, the registry, the listeners or the pushes.
\<close>

theorem unauthorised_changes_nothing:
  assumes "\<not> (is_tls x \<and> (\<exists>i. peer_id sha256 (tls_handshake x) (peer_certs x) = Inr i \<and>
      (AutoSubscribe cfg \<or> is_subscribed (reg (env p)) i)))"
  shows "\<exists>e. e \<in> {InvalidConnType, UnknownClient} \<union> range CertificateError \<and>
    handle_client uni sha256 lsn cfg x c p = (Rejected e, close_conn c p)"
  using assms
  by (cases "peer_id sha256 (tls_handshake x) (peer_certs x)") (auto simp: handle_client_def)

definition zero_hash :: "byte list \<Rightarrow> byte list" where
  "zero_hash cert = replicate 32 0"

lemma zero_hash_peer [simp]: "peer_id zero_hash None [cert] = Inr zero_ID"
  by (simp add: peer_id_def id_new_def zero_hash_def) (rule ID_eqI, simp)

text \<open>Answers of a client that connects and asks for the sample tunnels.\<close>

definition sample_client :: client_env where
  "sample_client = \<lparr>is_tls = True, tls_handshake = None, peer_certs = [[1, 2, 3]],
     deadline_error = None, ping = (\<lambda>_. False), new_client = Inr 11, request_error = None,
     can_take = (\<lambda>_. True), sendable = (\<lambda>_. True), response = (\<lambda>_. Response 200 20 (BodyTunnels sample_tunnels)),
     before = id, waiting = id\<rparr>"

theorem unauthorised_changes_nothing_witness:
  "\<not> (is_tls sample_client \<and> (\<exists>i. peer_id zero_hash (tls_handshake sample_client) (peer_certs sample_client) = Inr i \<and>
      (AutoSubscribe sample_config \<or> is_subscribed (reg (env new_server)) i))) \<and>
   (\<exists>e. e \<in> {InvalidConnType, UnknownClient} \<union> range CertificateError \<and>
      handle_client id zero_hash sample_listen sample_config sample_client 5 new_server
        = (Rejected e, close_conn 5 new_server))"
proof -
  have h: "\<not> (is_tls sample_client \<and> (\<exists>i. peer_id zero_hash (tls_handshake sample_client) (peer_certs sample_client) = Inr i \<and>
      (AutoSubscribe sample_config \<or> is_subscribed (reg (env new_server)) i)))"
    by (simp add: sample_client_def sample_config_def new_server_def is_subscribed_def new_registry_def)
  show ?thesis
    using unauthorised_changes_nothing [OF h, of id sample_listen 5] h by (intro conjI)
qed

lemma delete_conn_closed: "set (closed_conns p) \<subseteq> set (closed_conns (delete_conn uni free i p))"
  by (auto simp: delete_conn_def Let_def split: option.split)

lemma push_to_client_evict:
  "conns p (pool_addr i) = Some cp \<Longrightarrow> \<not> can (client_conn cp) \<Longrightarrow>
     push_to_client uni can may i m p = pool_close uni (Some disconnected) cp (pool_addr i) p"
  by (simp add: push_to_client_def get_client_conn_def)

lemma reject_pooled_conns: "conns (snd (reject_pooled uni can may err i p)) = (conns p)(pool_addr i := None)"
  by (auto simp: reject_pooled_def notify_error_def conns_delete push_to_client_conns split: option.split)

lemma reject_pooled_keeps_closed:
  "set (closed_conns p) \<subseteq> set (closed_conns (snd (reject_pooled uni can may err i p)))"
  using push_to_client_closed delete_conn_closed
  by (fastforce simp: reject_pooled_def notify_error_def)

lemma reject_pooled_closes:
  assumes "conns p (pool_addr i) = Some cp"
  shows "conn cp \<in> set (closed_conns (snd (reject_pooled uni can may err i p)))"
proof (cases "can (client_conn cp)")
  case True
  with assms show ?thesis
    by (simp add: reject_pooled_def notify_error_def push_to_client_ok delete_conn_Some)
next
  case False
  with assms show ?thesis
    by (simp add: reject_pooled_def notify_error_def push_to_client_evict delete_conn_None)
qed

lemma handshake_rejected:
  assumes "client_handshake uni lsn cfg x i p = (Rejected e, q)"
    and "before x = id" "waiting x = id" "conns p (pool_addr i) = Some cp"
  shows "conn cp \<in> set (closed_conns q) \<and> conns q = (conns p)(pool_addr i := None)"
proof -
  have reject: "conn cp \<in> set (closed_conns q) \<and> conns q = (conns p)(pool_addr i := None)"
    if "q = snd (reject_pooled uni can may err i p')" "conns p' = conns p" for can may err p'
    using that assms(4) by (simp add: reject_pooled_closes reject_pooled_conns)
  show ?thesis
  proof (cases "request_error x")
    case (Some err)
    with assms(1) have "q = snd (reject_pooled uni (can_take x) (sendable x) (RequestFailed err) i p)"
      by (simp add: client_handshake_def)
    then show ?thesis using reject by simp
  next
    case None
    show ?thesis
    proof (cases "can_take x (client_conn cp)")
      case False
      let ?p1 = "pool_close uni (Some disconnected) cp (pool_addr i) p"
      from False None assms have "q = snd (reject_pooled uni (can_take x) (sendable x) (NoConnection ClientNotConnected) i ?p1)"
        by (simp add: client_handshake_def get_client_conn_def)
      moreover have "conn cp \<in> set (closed_conns ?p1)" by simp
      ultimately show ?thesis
        using reject_pooled_keeps_closed [of ?p1] by (auto simp: reject_pooled_conns)
    next
      case True
      with None assms obtain can may err p' where "q = snd (reject_pooled uni can may err i p')" "conns p' = conns p"
        by (auto simp: client_handshake_def get_client_conn_def reject_pooled_def
            split: sum.splits prod.splits add_result.splits)
      then show ?thesis by (rule reject)
    qed
  qed
qed

lemma add_conn_pooled:
  assumes "add_conn uni (Some disconnected) png ncc c i p = (None, q)"
  shows "\<exists>cc. conns q = (conns p)(pool_addr i \<mapsto> \<lparr>conn = c, client_conn = cc\<rparr>)"
  using assms by (auto simp: add_conn_def put_conn_def Let_def split: option.splits sum.splits if_splits)

lemma add_conn_refused:
  assumes "add_conn uni (Some disconnected) png ncc c i p = (Some e, q)"
  shows "conns q = conns p \<or> conns q = (conns p)(pool_addr i := None)"
  using assms by (auto simp: add_conn_def put_conn_def Let_def split: option.splits sum.splits if_splits)

text \<open>
  C27: A rejected connection does not linger. With no interference from other goroutines,
  however far its handshake got, it has been closed when \<open>handleClient\<close> returns, the pool
  holds no entry for it, and the entries of all other clients are as they were.
\<close>

theorem rejected_connection_removed:
  assumes "handle_client uni sha256 lsn cfg x c p = (Rejected e, q)"
    and "before x = id" "waiting x = id" "\<forall>a cp. conns p a = Some cp \<longrightarrow> conn cp \<noteq> c"
  shows "c \<in> set (closed_conns q) \<and> (\<forall>a cp. conns q a = Some cp \<longrightarrow> conn cp \<noteq> c) \<and>
    (\<forall>j. peer_id sha256 (tls_handshake x) (peer_certs x) \<noteq> Inr j \<longrightarrow>
       conns q (pool_addr j) = conns p (pool_addr j))"
  using assms(1)
proof (cases rule: handle_client_cases)
  case (closed p1 err)
  with assms(4) show ?thesis by auto
next
  case (pooled i p1 p2)
  then obtain cc where p2: "conns p2 = (conns p)(pool_addr i \<mapsto> \<lparr>conn = c, client_conn = cc\<rparr>)"
    using add_conn_pooled by metis
  with pooled handshake_rejected [of uni lsn cfg x i p2 e q] assms(2,3)
  have "c \<in> set (closed_conns q)" "conns q = (conns p)(pool_addr i := None)" by auto
  with pooled assms(4) show ?thesis by auto
next
  case (refused i p1 err p2)
  with add_conn_refused [OF refused(3)]
  have q: "c \<in> set (closed_conns q)" "conns q = conns p \<or> conns q = (conns p)(pool_addr i := None)" by auto
  then have sub: "conns p a = Some cp" if "conns q a = Some cp" for a cp
    using that by (auto split: if_splits)
  show ?thesis
  proof (intro conjI allI impI)
    show "c \<in> set (closed_conns q)" by (rule q)
    show "conn cp \<noteq> c" if "conns q a = Some cp" for a cp using sub [OF that] assms(4) by blast
    show "conns q (pool_addr j) = conns p (pool_addr j)"
      if "peer_id sha256 (tls_handshake x) (peer_certs x) \<noteq> Inr j" for j
      using that refused(1) q(2) by auto
  qed
qed

definition sample_server :: server where
  "sample_server = \<lparr>conns = Map.empty, closed_conns = [], env = sample_world\<rparr>"

definition failing_client :: client_env where
  "failing_client = sample_client\<lparr>new_client := Inr 10, response := (\<lambda>_. DoFailed ''timeout'')\<rparr>"

lemma sample_subscribed [simp]: "is_subscribed (reg sample_world) zero_ID"
  by (simp add: sample_world_def is_subscribed_def subscribe_def new_registry_def)

lemma failing_client_rejected:
  "fst (handle_client id zero_hash sample_listen sample_config failing_client 1 sample_server)
     = Rejected (RoundTripFailed ''timeout'')"
  by (simp add: handle_client_def failing_client_def sample_client_def sample_config_def
      sample_server_def client_handshake_def add_conn_def put_conn_def get_client_conn_def
      check_response_def reject_pooled_def Let_def)

theorem rejected_connection_removed_witness:
  "fst (handle_client id zero_hash sample_listen sample_config failing_client 1 sample_server)
     = Rejected (RoundTripFailed ''timeout'') \<and>
   1 \<in> set (closed_conns (snd (handle_client id zero_hash sample_listen sample_config failing_client 1 sample_server)))"
proof -
  obtain q where q: "handle_client id zero_hash sample_listen sample_config failing_client 1 sample_server
      = (Rejected (RoundTripFailed ''timeout''), q)"
    using failing_client_rejected by (metis prod.collapse)
  have "before failing_client = id" "waiting failing_client = id"
    "\<forall>a cp. conns sample_server a = Some cp \<longrightarrow> conn cp \<noteq> 1"
    by (simp_all add: failing_client_def sample_client_def sample_server_def)
  from rejected_connection_removed [OF q this] q show ?thesis by simp
qed

theorem server_consistent_witness:
  "\<exists>p. (server_step id zero_hash sample_listen sample_config)\<^sup>*\<^sup>* new_server p \<and>
     (\<forall>k i. hosts (reg (env p)) k = Some i \<longleftrightarrow>
        (\<exists>x. items (reg (env p)) i = Some (Owned x) \<and> k \<in> trim_port ` set (Hosts x)))"
proof -
  have "(server_step id zero_hash sample_listen sample_config)\<^sup>*\<^sup>* new_server
      (new_server\<lparr>env := (env new_server)\<lparr>reg := subscribe zero_ID (reg (env new_server))\<rparr>\<rparr>)"
    by (rule r_into_rtranclp) (rule step_allow)
  then show ?thesis using server_consistent [OF sample_listen_fresh] by blast
qed

section \<open>A handler that outlives its connection\<close>

text \<open>
  The handler of connection 1 is still waiting for its handshake response when the client
  reconnects: the ping of the dead connection fails, connection 2 replaces it and is
  registered.
\<close>

definition second_client :: client_env where
  "second_client = sample_client"

definition outlived_client :: client_env where
  "outlived_client = failing_client\<lparr>waiting :=
     (\<lambda>p. snd (handle_client id zero_hash sample_listen sample_config second_client 2 p))\<rparr>"

definition after_reconnect :: server where
  "after_reconnect =
     \<lparr>conns = [pool_addr zero_ID \<mapsto> \<lparr>conn = 2, client_conn = 11\<rparr>], closed_conns = [1],
      env = \<lparr>reg = \<lparr>items = [zero_ID \<mapsto> Owned \<lparr>Hosts = [''app.example.com''], Listeners = [3]\<rparr>],
                    hosts = [''app.example.com'' \<mapsto> zero_ID]\<rparr>,
             open_listeners = {3}, closing = {}, serving = [(3, zero_ID)],
             pushes = [(11, TunnelInfoPush [(''web'', ''app.example.com'')])]\<rparr>\<rparr>"

lemma sample_world_disconnected [simp]: "disconnected zero_ID sample_world = sample_world"
  by (simp add: disconnected_def registry_clear_def sample_world_def subscribe_def new_registry_def)

lemma sample_config_simps [simp]:
  "\<not> AutoSubscribe sample_config" "BaseDomain sample_config = ''example.com''"
  by (simp_all add: sample_config_def)

lemma sample_tunnels_simps [simp]:
  "sample_tunnels \<noteq> []" "tunnel_hosts ''example.com'' sample_tunnels = [(''web'', ''app.example.com'')]"
  by (simp_all add: sample_tunnels_def tunnel_hosts_def protocol_names)

lemma second_client_registered:
  "handle_client id zero_hash sample_listen sample_config second_client 2
     (sample_server\<lparr>conns := [pool_addr zero_ID \<mapsto> \<lparr>conn = 1, client_conn = 10\<rparr>]\<rparr>)
     = (Connected, after_reconnect)"
  using sample_add
  by (simp add: handle_client_def second_client_def sample_client_def sample_server_def
      client_handshake_def add_conn_def put_conn_def get_client_conn_def check_response_def
      Let_def pool_close_def close_conn_def notify_tunnel_info_def
      push_to_client_def after_reconnect_def)

text \<open>
  C39: The identifier, not the connection, is what a failing handler rejects: if its
  round trip fails after the client has reconnected, it sends the error to the new
  connection, closes that connection and takes down the tunnels registered through it.
\<close>

theorem stale_handler_removes_replacement:
  assumes "client_handshake uni lsn cfg x i p = (res, q)" and "request_error x = None"
    and "conns (before x p) (pool_addr i) = Some cp" and "can_take x (client_conn cp)"
    and "response x (client_conn cp) = DoFailed e"
    and "conns (waiting x (before x p)) (pool_addr i) = Some new" and "can_take x (client_conn new)"
  shows "res = Rejected (RoundTripFailed e) \<and> conn new \<in> set (closed_conns q) \<and>
    conns q (pool_addr i) = None \<and> held (reg (env q)) i = {} \<and>
    (sendable x (ErrorPush (RoundTripFailed e)) \<longrightarrow> (client_conn new, ErrorPush (RoundTripFailed e)) \<in> set (pushes (env q)))"
  using assms
  by (auto simp: client_handshake_def get_client_conn_def check_response_def reject_pooled_def
      notify_error_def push_to_client_ok delete_conn_Some pool_close_env held_registry_clear
      split: if_splits)

theorem stale_handler_removes_replacement_witness:
  "\<exists>q. handle_client id zero_hash sample_listen sample_config outlived_client 1 sample_server
       = (Rejected (RoundTripFailed ''timeout''), q) \<and>
     handle_client id zero_hash sample_listen sample_config second_client 2
       (sample_server\<lparr>conns := [pool_addr zero_ID \<mapsto> \<lparr>conn = 1, client_conn = 10\<rparr>]\<rparr>)
       = (Connected, after_reconnect) \<and>
     2 \<in> set (closed_conns q) \<and> held (reg (env q)) zero_ID = {}"
proof -
  let ?p = "sample_server\<lparr>conns := [pool_addr zero_ID \<mapsto> \<lparr>conn = 1, client_conn = 10\<rparr>]\<rparr>"
  let ?x = outlived_client
  have start: "handle_client id zero_hash sample_listen sample_config ?x 1 sample_server
      = client_handshake id sample_listen sample_config ?x zero_ID ?p"
    by (simp add: handle_client_def outlived_client_def failing_client_def sample_client_def
        sample_server_def add_conn_def put_conn_def Let_def)
  obtain res q where rq: "client_handshake id sample_listen sample_config ?x zero_ID ?p = (res, q)"
    by fastforce
  have x: "request_error ?x = None" "before ?x = id" "can_take ?x = (\<lambda>_. True)"
      "response ?x = (\<lambda>_. DoFailed ''timeout'')"
      "waiting ?x = (\<lambda>p. snd (handle_client id zero_hash sample_listen sample_config second_client 2 p))"
    by (simp_all add: outlived_client_def failing_client_def sample_client_def)
  have new: "conns (waiting ?x (before ?x ?p)) (pool_addr zero_ID) = Some \<lparr>conn = 2, client_conn = 11\<rparr>"
    by (simp only: x id_apply second_client_registered snd_conv) (simp add: after_reconnect_def)
  have "conns (before ?x ?p) (pool_addr zero_ID) = Some \<lparr>conn = 1, client_conn = 10\<rparr>"
    by (simp add: x)
  from stale_handler_removes_replacement [OF rq x(1) this _ _ new] x start rq
  show ?thesis using second_client_registered by simp
qed

end
