(* ===== verification/ServerRuns.thy ===== *)
theory ServerRuns
  imports ServerClients
begin

text \<open>
  The server under concurrency (server.go, pool.go, registry.go): any number of handlers of
  client connections, in steps as small as the code's critical sections, next to everything
  else that changes the shared state. \<open>ServerClients\<close> runs one handler from start to end.
\<close>

section \<open>Who owns a listener\<close>

text \<open>
  A family of sets that share nothing and have the given union: the open listeners, by the
  client, the handler, the cleanup or the caller that is responsible for closing them.
\<close>

definition shares_out :: "('o \<Rightarrow> 'l set) \<Rightarrow> 'l set \<Rightarrow> bool" where
  "shares_out f A \<longleftrightarrow> (\<Union>x. f x) = A \<and> (\<forall>x y. x \<noteq> y \<longrightarrow> f x \<inter> f y = {})"

lemma shares_out_remove: "shares_out f A \<Longrightarrow> shares_out (f(x := {})) (A - f x)"
  unfolding shares_out_def by (auto split: if_splits)

lemma shares_out_drop: "\<lbrakk>shares_out f A; l \<in> f x\<rbrakk> \<Longrightarrow> shares_out (f(x := f x - {l})) (A - {l})"
  unfolding shares_out_def by (auto split: if_splits)

lemma shares_out_add:
  "\<lbrakk>shares_out f A; X \<inter> A = {}\<rbrakk> \<Longrightarrow> shares_out (f(x := f x \<union> X)) (A \<union> X)"
  unfolding shares_out_def by (auto split: if_splits)

lemma shares_out_move:
  assumes "shares_out f A" and "x \<noteq> y"
  shows "shares_out (f(x := {}, y := f y \<union> f x)) A"
proof -
  let ?g = "f(x := {}, y := f y \<union> f x)"
  have "(\<Union>z. ?g z) = (\<Union>z. f z)" using assms(2) by (auto split: if_splits)
  moreover have "?g a \<inter> ?g b = {}" if "a \<noteq> b" for a b
    using assms that unfolding shares_out_def by (auto split: if_splits)
  ultimately show ?thesis using assms(1) by (simp add: shares_out_def)
qed

lemma shares_outD:
  "shares_out f A \<Longrightarrow> f x \<subseteq> A" "\<lbrakk>shares_out f A; x \<noteq> y\<rbrakk> \<Longrightarrow> f x \<inter> f y = {}"
  "\<lbrakk>shares_out f A; l \<in> A\<rbrakk> \<Longrightarrow> \<exists>x. l \<in> f x"
  by (auto simp: shares_out_def)

section \<open>The handlers\<close>

text \<open>
  Where \<open>handleClient\<close> is for a connection: it has been accepted; it knows the identifier; the
  connection is pooled; a request of the handler has found the pooled connection unusable, and
  it is about to evict it, with what it does next; the handshake request is waiting for its response; \<open>addTunnels\<close> ranges over the
  tunnels, has set its item, or rolls back; the tunnels are served; it rejects and tells the
  client, or removes the connection; it has ended.
\<close>

datatype handler =
    Absent
  | Arrived
  | Known ID
  | Pooled ID
  | Evicting ID nat handler
  | Asked ID nat
  | Opening ID "(string \<times> tunnel option) list" "(string \<times> tunnel option) list" registry_item
  | RollingBack ID server_error registry_item
  | Starting ID "(string \<times> tunnel option) list" registry_item
  | Registered ID "(string \<times> tunnel option) list"
  | Rejecting ID reject_reason
  | Deleting ID reject_reason
  | Ended client_result

text \<open>
  The listeners a handler has opened and not yet registered or closed, and the whole system:
  the server, its handlers by the number of their connection, the listeners of items that
  \<open>Unsubscribe\<close> has handed to its caller, and whether the process has crashed.
\<close>

primrec pending :: "handler \<Rightarrow> listener set" where
  "pending Absent = {}"
| "pending Arrived = {}"
| "pending (Known i) = {}"
| "pending (Pooled i) = {}"
| "pending (Evicting i cc next) = pending next"
| "pending (Asked i cc) = {}"
| "pending (Opening i ts rest x) = set (Listeners x)"
| "pending (RollingBack i e x) = set (Listeners x)"
| "pending (Starting i ts x) = {}"
| "pending (Registered i ts) = {}"
| "pending (Rejecting i e) = {}"
| "pending (Deleting i e) = {}"
| "pending (Ended res) = {}"

record system =
  srv :: server
  handlers :: "nat \<Rightarrow> handler"
  handed :: "listener set"
  crashed :: bool

definition new_system :: system where
  "new_system = \<lparr>srv = new_server, handlers = (\<lambda>_. Absent), handed = {}, crashed = False\<rparr>"

definition goes :: "nat \<Rightarrow> handler \<Rightarrow> server \<Rightarrow> system \<Rightarrow> system" where
  "goes c h p s = s\<lparr>srv := p, handlers := (handlers s)(c := h)\<rparr>"

text \<open>The second critical section of \<open>GetClientConn\<close>.\<close>

definition pool_evict :: "(string \<Rightarrow> string) \<Rightarrow> 'w free \<Rightarrow> nat \<Rightarrow> string \<Rightarrow> 'w pool \<Rightarrow> 'w pool" where
  "pool_evict uni free cc addr p =
     (case conns p addr of
        Some cur \<Rightarrow> if client_conn cur = cc then pool_close uni free cur addr p else p
      | None \<Rightarrow> p)"

lemma get_client_conn_evict:
  "get_client_conn uni free can other a p =
     (case conns p a of
        None \<Rightarrow> (Inl ClientNotConnected, p)
      | Some cp \<Rightarrow>
          if can (client_conn cp) then (Inr (client_conn cp), p)
          else (Inl ClientNotConnected, pool_evict uni free (client_conn cp) a (other p)))"
  by (simp add: get_client_conn_def pool_evict_def Let_def split: option.split)

text \<open>
  What the outside answers when the handler asks it: \<open>peer\<close> is how the TLS handshake ends, and
  \<open>None\<close> as long as it has not, which can be for ever, since no deadline is set for it (every
  other answer comes within a timeout: the ping's, or \<open>DefaultTimeout\<close> for a request); \<open>usable\<close>
  says whether an HTTP/2 connection takes a request, and \<open>transmits\<close> whether the transport sends it.
\<close>

datatype introduction = NotTLS | BadPeer peer_error | Peer ID

record outside =
  peer :: "introduction option"
  deadline :: "string option"
  pings :: "nat \<Rightarrow> bool"
  connects :: "string + nat"
  requests :: "string option"
  usable :: "nat \<Rightarrow> bool"
  transmits :: "push \<Rightarrow> bool"
  responds :: "nat \<Rightarrow> response"

text \<open>
  \<open>pushToClient\<close>: the request goes out on the pooled connection if that is usable and the
  transport does not refuse it; if the connection is not usable, it is evicted in a step of its
  own. Then the handler goes on with \<open>next\<close> in any case.
\<close>

definition push_begins :: "outside \<Rightarrow> ID \<Rightarrow> push \<Rightarrow> handler \<Rightarrow> server \<Rightarrow> handler \<times> server" where
  "push_begins x i m next p =
     (case conns p (pool_addr i) of
        None \<Rightarrow> (next, p)
      | Some cp \<Rightarrow>
          if usable x (client_conn cp)
          then (next, if transmits x m then p\<lparr>env := (env p)\<lparr>pushes := pushes (env p) @ [(client_conn cp, m)]\<rparr>\<rparr> else p)
          else (Evicting i (client_conn cp) next, p))"

section \<open>Steps of a handler\<close>

text \<open>
  One step of the handler of connection \<open>c\<close>, when the outside answers as in \<open>x\<close>. Each changes
  the shared state in one critical section at most: an item is released in one step and its
  listeners are closed in steps of their own (\<open>closes\<close> below), and a handler that rolls back
  closes one listener in a step (\<open>removeAll\<close>: an item has each of its listeners once).
\<close>

inductive handler_step :: "(string \<Rightarrow> string) \<Rightarrow> net_listen \<Rightarrow> server_config \<Rightarrow> nat \<Rightarrow> outside
    \<Rightarrow> handler \<Rightarrow> server \<Rightarrow> handler \<Rightarrow> server \<Rightarrow> bool" for uni lsn cfg c x where
  not_tls: "peer x = Some NotTLS \<Longrightarrow>
    handler_step uni lsn cfg c x Arrived p (Ended (Rejected InvalidConnType)) (close_conn c p)"
| no_identity: "peer x = Some (BadPeer e) \<Longrightarrow>
    handler_step uni lsn cfg c x Arrived p (Ended (Rejected (CertificateError e))) (close_conn c p)"
| subscribed: "\<lbrakk>peer x = Some (Peer i); AutoSubscribe cfg\<rbrakk> \<Longrightarrow>
    handler_step uni lsn cfg c x Arrived p (Known i) (p\<lparr>env := (env p)\<lparr>reg := subscribe i (reg (env p))\<rparr>\<rparr>)"
| listed: "\<lbrakk>peer x = Some (Peer i); \<not> AutoSubscribe cfg; is_subscribed (reg (env p)) i\<rbrakk> \<Longrightarrow>
    handler_step uni lsn cfg c x Arrived p (Known i) p"
| unlisted: "\<lbrakk>peer x = Some (Peer i); \<not> AutoSubscribe cfg; \<not> is_subscribed (reg (env p)) i\<rbrakk> \<Longrightarrow>
    handler_step uni lsn cfg c x Arrived p (Ended (Rejected UnknownClient)) (close_conn c p)"
| no_deadline: "deadline x = Some err \<Longrightarrow>
    handler_step uni lsn cfg c x (Known i) p (Ended (Rejected (DeadlineFailed err))) (close_conn c p)"
| not_added: "\<lbrakk>deadline x = None; add_conn uni (Some released) (pings x) (connects x) c i p = (Some e, q)\<rbrakk> \<Longrightarrow>
    handler_step uni lsn cfg c x (Known i) p (Ended (Rejected (AddConnFailed e))) (close_conn c q)"
| added: "\<lbrakk>deadline x = None; add_conn uni (Some released) (pings x) (connects x) c i p = (None, q);
      fresh_client (connects x) p\<rbrakk> \<Longrightarrow>
    handler_step uni lsn cfg c x (Known i) p (Pooled i) q"
| no_request: "requests x = Some err \<Longrightarrow>
    handler_step uni lsn cfg c x (Pooled i) p (Rejecting i (RequestFailed err)) p"
| asks: "\<lbrakk>requests x = None; conns p (pool_addr i) = Some cp; usable x (client_conn cp)\<rbrakk> \<Longrightarrow>
    handler_step uni lsn cfg c x (Pooled i) p (Asked i (client_conn cp)) p"
| lost: "\<lbrakk>requests x = None; conns p (pool_addr i) = None\<rbrakk> \<Longrightarrow>
    handler_step uni lsn cfg c x (Pooled i) p (Rejecting i (NoConnection ClientNotConnected)) p"
| cannot_ask: "\<lbrakk>requests x = None; conns p (pool_addr i) = Some cp; \<not> usable x (client_conn cp)\<rbrakk> \<Longrightarrow>
    handler_step uni lsn cfg c x (Pooled i) p
      (Evicting i (client_conn cp) (Rejecting i (NoConnection ClientNotConnected))) p"
| evicts: "handler_step uni lsn cfg c x (Evicting i cc next) p next
    (pool_evict uni (Some released) cc (pool_addr i) p)"
| bad_answer: "check_response (responds x cc) = Inl e \<Longrightarrow>
    handler_step uni lsn cfg c x (Asked i cc) p (Rejecting i e) p"
| answer: "check_response (responds x cc) = Inr ts \<Longrightarrow>
    handler_step uni lsn cfg c x (Asked i cc) p (Opening i ts ts \<lparr>Hosts = [], Listeners = []\<rparr>) p"
| opens: "collect_tunnels lsn (BaseDomain cfg) [t] y (open_listeners (env p)) = (Collected, y', opened) \<Longrightarrow>
    handler_step uni lsn cfg c x (Opening i ts (t # rest) y) p
      (Opening i ts rest y') (p\<lparr>env := (env p)\<lparr>open_listeners := opened\<rparr>\<rparr>)"
| fails: "collect_tunnels lsn (BaseDomain cfg) [t] y (open_listeners (env p)) = (Rollback err, y', opened) \<Longrightarrow>
    handler_step uni lsn cfg c x (Opening i ts (t # rest) y) p
      (RollingBack i err y') (p\<lparr>env := (env p)\<lparr>open_listeners := opened\<rparr>\<rparr>)"
| panics: "handler_step uni lsn cfg c x (Opening i ts ((name, None) # rest) y) p (Ended Crashed) p"
| sets: "registry_set y i (reg (env p)) = Inr r \<Longrightarrow>
    handler_step uni lsn cfg c x (Opening i ts [] y) p (Starting i ts y) (p\<lparr>env := (env p)\<lparr>reg := r\<rparr>\<rparr>)"
| not_set: "registry_set y i (reg (env p)) = Inl e \<Longrightarrow>
    handler_step uni lsn cfg c x (Opening i ts [] y) p (RollingBack i (SetFailed e) y) p"
| rolls_back: "Listeners y = l # ls \<Longrightarrow>
    handler_step uni lsn cfg c x (RollingBack i err y) p (RollingBack i err (y\<lparr>Listeners := removeAll l ls\<rparr>))
      (p\<lparr>env := close_listeners [l] (env p)\<rparr>)"
| rolled_back: "Listeners y = [] \<Longrightarrow>
    handler_step uni lsn cfg c x (RollingBack i err y) p (Rejecting i (TunnelsRefused err)) p"
| starts: "handler_step uni lsn cfg c x (Starting i ts y) p (Registered i ts)
    (p\<lparr>env := (env p)\<lparr>serving := serving (env p) @ map (\<lambda>l. (l, i)) (Listeners y)\<rparr>\<rparr>)"
| no_hosts: "tunnel_hosts (BaseDomain cfg) ts = [] \<Longrightarrow>
    handler_step uni lsn cfg c x (Registered i ts) p (Ended Connected) p"
| informs: "\<lbrakk>hs = tunnel_hosts (BaseDomain cfg) ts; hs \<noteq> [];
      push_begins x i (TunnelInfoPush hs) (Ended Connected) p = (h, q)\<rbrakk> \<Longrightarrow>
    handler_step uni lsn cfg c x (Registered i ts) p h q"
| tells: "push_begins x i (ErrorPush e) (Deleting i e) p = (h, q) \<Longrightarrow>
    handler_step uni lsn cfg c x (Rejecting i e) p h q"
| deletes: "handler_step uni lsn cfg c x (Deleting i e) p (Ended (Rejected e))
    (delete_conn uni (Some released) i p)"

text \<open>
  A step of the system: a connection arrives, a handler moves, or someone else changes the
  state: \<open>Subscribe\<close>, the two halves of \<open>Unsubscribe\<close>, the HTTP/2 layer reporting a dead
  connection, a public request that finds a connection unusable, or a cleanup that closes one
  of the listeners it has taken out of the registry. After a crash nothing happens any more.
\<close>

inductive system_step :: "(string \<Rightarrow> string) \<Rightarrow> net_listen \<Rightarrow> server_config \<Rightarrow> system \<Rightarrow> system \<Rightarrow> bool"
    for uni lsn cfg where
  arrives: "\<lbrakk>\<not> crashed s; handlers s c = Absent\<rbrakk> \<Longrightarrow>
    system_step uni lsn cfg s (goes c Arrived (srv s) s)"
| moves: "\<lbrakk>\<not> crashed s; handler_step uni lsn cfg c x (handlers s c) (srv s) h q\<rbrakk> \<Longrightarrow>
    system_step uni lsn cfg s ((goes c h q s)\<lparr>crashed := (h = Ended Crashed)\<rparr>)"
| allows: "\<not> crashed s \<Longrightarrow> system_step uni lsn cfg s
    (s\<lparr>srv := (srv s)\<lparr>env := (env (srv s))\<lparr>reg := subscribe i (reg (env (srv s)))\<rparr>\<rparr>\<rparr>)"
| disconnects: "\<not> crashed s \<Longrightarrow> system_step uni lsn cfg s
    (s\<lparr>srv := delete_conn uni (Some released) i (srv s)\<rparr>)"
| unsubscribes: "\<not> crashed s \<Longrightarrow> system_step uni lsn cfg s
    (s\<lparr>srv := (srv s)\<lparr>env := (env (srv s))\<lparr>reg := snd (unsubscribe i (reg (env (srv s))))\<rparr>\<rparr>,
       handed := handed s \<union> item_listeners (reg (env (srv s))) i\<rparr>)"
| dies: "\<not> crashed s \<Longrightarrow> system_step uni lsn cfg s
    (s\<lparr>srv := mark_dead uni (Some released) cc order (srv s)\<rparr>)"
| request_evicts: "\<not> crashed s \<Longrightarrow> system_step uni lsn cfg s
    (s\<lparr>srv := pool_evict uni (Some released) cc a (srv s)\<rparr>)"
| closes: "\<lbrakk>\<not> crashed s; l \<in> closing (env (srv s))\<rbrakk> \<Longrightarrow> system_step uni lsn cfg s
    (s\<lparr>srv := (srv s)\<lparr>env := close_closing l (env (srv s))\<rparr>\<rparr>)"

section \<open>The invariant\<close>

datatype owner = Client ID | Handler nat | Caller | Closer

definition owned :: "system \<Rightarrow> owner \<Rightarrow> listener set" where
  "owned s o' = (case o' of
     Client i \<Rightarrow> item_listeners (reg (env (srv s))) i
   | Handler c \<Rightarrow> pending (handlers s c)
   | Caller \<Rightarrow> handed s
   | Closer \<Rightarrow> closing (env (srv s)))"

definition system_ok :: "system \<Rightarrow> bool" where
  "system_ok s \<longleftrightarrow> pool_ok (srv s) \<and> registry_ok (reg (env (srv s))) \<and>
     shares_out (owned s) (open_listeners (env (srv s)))"

text \<open>
  What the pool's operations do to the rest of the server: nothing that matters here, or
  exactly what \<open>released\<close> does for one client.
\<close>

definition settles :: "world \<Rightarrow> world \<Rightarrow> bool" where
  "settles w w' \<longleftrightarrow>
     (\<exists>v. (v = w \<or> (\<exists>i. v = released i w)) \<and> reg w' = reg v \<and> open_listeners w' = open_listeners v \<and>
        closing w' = closing v)"

lemma settles_refl [simp]: "settles w w"
  by (auto simp: settles_def)

lemma settles_released [simp]: "settles w (released i w)"
  unfolding settles_def by blast

lemma settles_pushes [simp]: "settles w (w'\<lparr>pushes := ps\<rparr>) \<longleftrightarrow> settles w w'"
  by (simp add: settles_def)

lemma settles_serving [simp]: "settles w (w'\<lparr>serving := ls\<rparr>) \<longleftrightarrow> settles w w'"
  by (simp add: settles_def)

lemma settles_close:
  assumes "pool_ok p" "conns p a = Some cp"
  shows "settles (env p) (env (pool_close uni (Some released) cq a p))"
proof -
  from pool_ok_key [OF assms] obtain i where "a = pool_addr i" ..
  then show ?thesis by (simp add: pool_close_env)
qed

lemma settles_evict: "pool_ok p \<Longrightarrow> settles (env p) (env (pool_evict uni (Some released) cc a p))"
  by (auto simp: pool_evict_def settles_close split: option.split)

lemma settles_delete: "pool_ok p \<Longrightarrow> settles (env p) (env (delete_conn uni (Some released) i p))"
  by (auto simp: delete_conn_def Let_def settles_close split: option.split)

lemma settles_dead: "pool_ok p \<Longrightarrow> settles (env p) (env (mark_dead uni (Some released) cc order p))"
  by (induction uni "Some released" cc order p rule: mark_dead.induct)
    (auto simp: settles_close split: option.split)

lemma settles_add:
  "\<lbrakk>pool_ok p; add_conn uni (Some released) png ncc c i p = (r, q)\<rbrakk> \<Longrightarrow> settles (env p) (env q)"
  by (auto simp: add_conn_def put_conn_def Let_def pool_close_env split: option.splits sum.splits if_splits)

lemma push_begins_settles:
  "push_begins x i m next p = (h, q) \<Longrightarrow>
     settles (env p) (env q) \<and> pool_ok q = pool_ok p \<and> pending h = pending next"
  by (auto simp: push_begins_def pool_ok_def split: option.splits if_splits)

lemma pool_ok_evict: "pool_ok p \<Longrightarrow> pool_ok (pool_evict uni free cc a p)"
  by (auto simp: pool_evict_def split: option.split intro: inv_intros)

lemma pool_ok_close_conn [simp]: "pool_ok (close_conn c p) = pool_ok p"
  by (simp add: pool_ok_def)

lemma owned_goes: "owned (goes c h q s) = (owned (s\<lparr>srv := q\<rparr>))(Handler c := pending h)"
  by (rule ext) (simp add: owned_def goes_def split: owner.split)

lemma system_ok_settles:
  assumes "system_ok s" "pool_ok q" "settles (env (srv s)) (env q)"
  shows "system_ok (s\<lparr>srv := q\<rparr>)"
proof -
  let ?w = "env (srv s)" and ?v = "env q"
  from assms(3) consider "reg ?v = reg ?w" "open_listeners ?v = open_listeners ?w" "closing ?v = closing ?w"
    | i where "reg ?v = reg (released i ?w)" "open_listeners ?v = open_listeners (released i ?w)"
      "closing ?v = closing (released i ?w)"
    by (auto simp: settles_def)
  then show ?thesis
  proof cases
    case 1
    then have "owned (s\<lparr>srv := q\<rparr>) = owned s" by (intro ext) (simp add: owned_def split: owner.split)
    with 1 assms show ?thesis by (simp add: system_ok_def)
  next
    case (2 i)
    then have "owned (s\<lparr>srv := q\<rparr>) = (owned s)(Client i := {}, Closer := owned s Closer \<union> owned s (Client i))"
      by (intro ext)
        (simp add: owned_def item_listeners_clear item_listeners_def [of "reg (env (srv s))" i, symmetric]
          split: owner.split)
    moreover have "shares_out \<dots> (open_listeners ?w)"
      using assms(1) by (intro shares_out_move) (simp_all add: system_ok_def)
    moreover have "registry_ok (reg ?v)"
      using 2 assms(1) registry_ok_clear by (simp add: system_ok_def)
    ultimately show ?thesis using assms(2) 2 by (simp add: system_ok_def)
  qed
qed

lemma system_ok_goes:
  assumes "system_ok s" "pool_ok q" "settles (env (srv s)) (env q)" "pending h = pending (handlers s c)"
  shows "system_ok (goes c h q s)"
proof -
  have "owned (goes c h q s) = owned (s\<lparr>srv := q\<rparr>)"
    unfolding owned_goes using assms(4) by (intro ext) (simp add: owned_def)
  with system_ok_settles [OF assms(1-3)] show ?thesis by (simp add: system_ok_def goes_def)
qed

lemma system_ok_opens:
  assumes "fresh_listen lsn" "system_ok s"
    and "collect_tunnels lsn base [t] x (open_listeners (env (srv s))) = (r, x', opened)"
    and "pending (handlers s c) = set (Listeners x)" "pending h = set (Listeners x')"
  shows "system_ok (goes c h ((srv s)\<lparr>env := (env (srv s))\<lparr>open_listeners := opened\<rparr>\<rparr>) s)"
proof -
  let ?w = "env (srv s)"
  let ?q = "(srv s)\<lparr>env := ?w\<lparr>open_listeners := opened\<rparr>\<rparr>"
  obtain ls where ls: "Listeners x' = Listeners x @ ls" "opened = open_listeners ?w \<union> set ls"
      "set ls \<inter> open_listeners ?w = {}"
    using collect_tunnels_grows [OF assms(1,3)] by blast
  have "owned (goes c h ?q s) = (owned s)(Handler c := owned s (Handler c) \<union> set ls)"
    unfolding owned_goes
    by (rule ext) (use assms(4,5) ls(1) in \<open>simp add: owned_def split: owner.split\<close>)
  moreover have "shares_out \<dots> (open_listeners ?w \<union> set ls)"
    using assms(2) ls(3) by (intro shares_out_add) (simp_all add: system_ok_def)
  ultimately show ?thesis using assms(2) ls(2) by (simp add: system_ok_def goes_def)
qed

lemma system_ok_sets:
  assumes "system_ok s" "registry_set x i (reg (env (srv s))) = Inr r"
    and "pending (handlers s c) = set (Listeners x)" "pending h = {}"
  shows "system_ok (goes c h ((srv s)\<lparr>env := (env (srv s))\<lparr>reg := r\<rparr>\<rparr>) s)"
proof -
  let ?w = "env (srv s)"
  let ?q = "(srv s)\<lparr>env := ?w\<lparr>reg := r\<rparr>\<rparr>"
  have "items (reg ?w) i = Some Void" by (rule registry_set_Inr(1) [OF assms(2)])
  then have none: "owned s (Client i) = {}" by (simp add: owned_def item_listeners_def)
  have "owned (goes c h ?q s)
      = (owned s)(Handler c := {}, Client i := owned s (Client i) \<union> owned s (Handler c))"
    unfolding owned_goes
    by (rule ext)
      (use assms(3,4) none in \<open>simp add: owned_def item_listeners_set [OF assms(2)] split: owner.split\<close>)
  moreover have "shares_out \<dots> (open_listeners ?w)"
    using assms(1) by (intro shares_out_move) (simp_all add: system_ok_def)
  moreover have "registry_ok r"
    using assms(1) registry_ok_set [OF _ assms(2)] by (simp add: system_ok_def)
  ultimately show ?thesis using assms(1) by (simp add: system_ok_def goes_def)
qed

lemma system_ok_rolls_back:
  assumes "system_ok s" "pending (handlers s c) = insert l X" "pending h = X - {l}"
  shows "system_ok (goes c h ((srv s)\<lparr>env := close_listeners [l] (env (srv s))\<rparr>) s)"
proof -
  let ?q = "(srv s)\<lparr>env := close_listeners [l] (env (srv s))\<rparr>"
  have "owned (goes c h ?q s) = (owned s)(Handler c := owned s (Handler c) - {l})"
    unfolding owned_goes
    by (rule ext) (use assms(2,3) in \<open>auto simp: owned_def close_listeners_def split: owner.split\<close>)
  moreover have "shares_out \<dots> (open_listeners (env (srv s)) - {l})"
    using assms(1,2) by (intro shares_out_drop) (simp_all add: system_ok_def owned_def)
  ultimately show ?thesis using assms(1) by (simp add: system_ok_def goes_def close_listeners_def)
qed

lemma system_ok_closes:
  assumes "system_ok s" "l \<in> closing (env (srv s))"
  shows "system_ok (s\<lparr>srv := (srv s)\<lparr>env := close_closing l (env (srv s))\<rparr>\<rparr>)" (is "system_ok ?t")
proof -
  have "owned ?t = (owned s)(Closer := owned s Closer - {l})"
    by (rule ext) (simp add: owned_def close_closing_def split: owner.split)
  moreover have "shares_out \<dots> (open_listeners (env (srv s)) - {l})"
    using assms by (intro shares_out_drop) (simp_all add: system_ok_def owned_def)
  ultimately show ?thesis using assms(1) by (simp add: system_ok_def close_closing_def)
qed

lemma pool_ok_not_added:
  "\<lbrakk>pool_ok p; add_conn uni free png ncc c i p = (Some e, q)\<rbrakk> \<Longrightarrow> pool_ok q"
  by (erule pool_ok_sub)
    (auto simp: add_conn_def put_conn_def Let_def split: option.splits sum.splits if_splits)

lemma system_ok_subscribe:
  assumes "system_ok s"
  shows "system_ok (s\<lparr>srv := (srv s)\<lparr>env := (env (srv s))\<lparr>reg := subscribe i (reg (env (srv s)))\<rparr>\<rparr>\<rparr>)"
    (is "system_ok ?t")
proof -
  have "owned ?t = owned s" by (rule ext) (simp add: owned_def split: owner.split)
  with assms registry_ok_subscribe show ?thesis by (simp add: system_ok_def)
qed

lemma system_ok_unsubscribes:
  assumes "system_ok s"
  shows "system_ok (s\<lparr>srv := (srv s)\<lparr>env := (env (srv s))\<lparr>reg := snd (unsubscribe i (reg (env (srv s))))\<rparr>\<rparr>,
    handed := handed s \<union> item_listeners (reg (env (srv s))) i\<rparr>)" (is "system_ok ?t")
proof -
  have "owned ?t = (owned s)(Client i := {}, Caller := owned s Caller \<union> owned s (Client i))"
    by (rule ext) (simp add: owned_def item_listeners_unsubscribe split: owner.split)
  moreover have "shares_out \<dots> (open_listeners (env (srv s)))"
    using assms by (intro shares_out_move) (simp_all add: system_ok_def)
  moreover have "registry_ok (snd (unsubscribe i (reg (env (srv s)))))"
    using assms registry_ok_unsubscribe by (simp add: system_ok_def)
  ultimately show ?thesis using assms by (simp add: system_ok_def)
qed

lemma handler_step_ok:
  assumes "handler_step uni lsn cfg c x h p h' q" and "fresh_listen lsn" and "system_ok s"
    and "h = handlers s c" and "p = srv s" and "h' \<noteq> Ended Crashed"
  shows "system_ok (goes c h' q s)"
proof -
  have ok: "pool_ok p" using assms(3,5) by (simp add: system_ok_def)
  have goes: "system_ok (goes c h' q s)"
    if "pool_ok q" "settles (env p) (env q)" "pending h' = pending h"
    using that system_ok_goes [OF assms(3), of q h' c] assms(4,5) by simp
  have pend: "pending (handlers s c) = pending h" using assms(4) by simp
  from assms(1) show ?thesis
  proof (cases rule: handler_step.cases)
    case (subscribed i)
    have "system_ok (s\<lparr>srv := q\<rparr>)" unfolding subscribed(3) assms(5) by (rule system_ok_subscribe [OF assms(3)])
    with subscribed assms(4) show ?thesis
      using system_ok_goes [of "s\<lparr>srv := q\<rparr>" q h' c] by (simp add: system_ok_def goes_def)
  next
    case (not_added i e r)
    then have "settles (env p) (env r)" "pool_ok r"
      using settles_add [OF ok not_added(5)] pool_ok_not_added [OF ok not_added(5)] by auto
    with goes not_added show ?thesis by simp
  next
    case (added i)
    then have "settles (env p) (env q)" "pool_ok q"
      using settles_add [OF ok added(4)] pool_ok_add [OF ok added(5), of uni "Some released" "pings x" c i] by auto
    with goes added show ?thesis by simp
  next
    case (evicts i cc)
    with goes ok show ?thesis by (simp add: settles_evict pool_ok_evict)
  next
    case (opens t y y' opened i ts rest)
    with pend have "pending (handlers s c) = set (Listeners y)" "pending h' = set (Listeners y')" by simp_all
    from system_ok_opens [OF assms(2,3) opens(4) [unfolded assms(5)] this] opens assms(5) show ?thesis by simp
  next
    case (fails t y err y' opened i ts rest)
    with pend have "pending (handlers s c) = set (Listeners y)" "pending h' = set (Listeners y')" by simp_all
    from system_ok_opens [OF assms(2,3) fails(4) [unfolded assms(5)] this] fails assms(5) show ?thesis by simp
  next
    case (sets y i r ts)
    with pend have "pending (handlers s c) = set (Listeners y)" "pending h' = {}" by simp_all
    from system_ok_sets [OF assms(3) sets(4) [unfolded assms(5)] this] sets assms(5) show ?thesis by simp
  next
    case (rolls_back y l ls i err)
    with pend have "pending (handlers s c) = insert l (set ls)" "pending h' = set ls - {l}" by simp_all
    from system_ok_rolls_back [OF assms(3) this] rolls_back assms(5) show ?thesis by simp
  next
    case (rolled_back y i err)
    with goes ok show ?thesis by simp
  next
    case (starts i ts y)
    with goes ok show ?thesis by simp
  next
    case (informs hs ts i)
    with goes ok push_begins_settles [OF informs(4)] show ?thesis by simp
  next
    case (tells i e)
    with goes ok push_begins_settles [OF tells(2)] show ?thesis by simp
  next
    case (deletes i e)
    with goes ok show ?thesis by (simp add: settles_delete pool_ok_delete)
  next
    case (panics i ts name rest y)
    with assms(6) show ?thesis by simp
  qed (use goes ok in simp_all)
qed

lemma system_step_ok:
  assumes "fresh_listen lsn" "system_step uni lsn cfg s t" "crashed s \<or> system_ok s"
  shows "crashed t \<or> system_ok t"
  using assms(2)
proof (cases rule: system_step.cases)
  case (arrives c)
  with assms(3) show ?thesis using system_ok_goes [of s "srv s" Arrived c] by (simp add: system_ok_def)
next
  case (moves c x h q)
  then have s: "system_ok s" using assms(3) by simp
  show ?thesis
  proof (cases "h = Ended Crashed")
    case True
    with moves show ?thesis by simp
  next
    case False
    with handler_step_ok [OF moves(3) assms(1) s refl refl] have "system_ok (goes c h q s)" by simp
    then have "system_ok ((goes c h q s)\<lparr>crashed := False\<rparr>)"
      by (simp add: system_ok_def owned_def [abs_def])
    with moves False show ?thesis by simp
  qed
next
  case (allows i)
  with assms(3) show ?thesis using system_ok_subscribe by blast
next
  case (disconnects i)
  then have "system_ok s" using assms(3) by simp
  then show ?thesis unfolding disconnects(1)
    using system_ok_settles settles_delete pool_ok_delete by (metis system_ok_def)
next
  case (unsubscribes i)
  with assms(3) show ?thesis using system_ok_unsubscribes by blast
next
  case (dies cc order)
  then have "system_ok s" using assms(3) by simp
  then show ?thesis unfolding dies(1)
    using system_ok_settles settles_dead pool_ok_mark_dead by (metis system_ok_def)
next
  case (request_evicts cc a)
  then have "system_ok s" using assms(3) by simp
  then show ?thesis unfolding request_evicts(1)
    using system_ok_settles settles_evict pool_ok_evict by (metis system_ok_def)
next
  case (closes l)
  with assms(3) show ?thesis using system_ok_closes by blast
qed

lemma system_ok_new: "system_ok new_system"
  using server_ok_new
  by (auto simp: system_ok_def new_system_def server_ok_def world_ok_def shares_out_def owned_def
      new_server_def item_listeners_def new_registry_def split: owner.splits)

interpretation system_runs: invariant_system "\<lambda>s. s = new_system"
    "\<lambda>s t. fresh_listen lsn \<and> system_step uni lsn cfg s t" "\<lambda>s. crashed s \<or> system_ok s"
    for uni lsn cfg
proof unfold_locales
  show "crashed s \<or> system_ok s" if "s = new_system" for s using that system_ok_new by simp
  show "crashed t \<or> system_ok t"
    if "fresh_listen lsn \<and> system_step uni lsn cfg s t" "crashed s \<or> system_ok s" for s t
    using that system_step_ok by blast
qed

text \<open>
  C2: However the handlers of any number of connections interleave, with each other and with
  disconnections, evictions and removals, as long as the process runs: no two clients share a
  connection of the pool, under the key of the client each; a host resolves to a
  client exactly if that client's item claims it; every open listener has exactly one owner,
  which is the client whose item records it, a handler that is still adding tunnels or rolling
  back, the cleanup that has taken it out of the registry and is about to close it, or the
  caller \<open>Unsubscribe\<close> handed it to; and nothing else is open. No listener is leaked, and none
  is closed by anyone but its owner.
\<close>

theorem concurrent_server_consistent:
  assumes "fresh_listen lsn" and "(system_step uni lsn cfg)\<^sup>*\<^sup>* new_system s" and "\<not> crashed s"
  shows "pool_ok (srv s) \<and> registry_ok (reg (env (srv s))) \<and>
    (\<Union>x. owned s x) = open_listeners (env (srv s)) \<and> (\<forall>x y. x \<noteq> y \<longrightarrow> owned s x \<inter> owned s y = {})"
proof -
  have "(\<lambda>s t. fresh_listen lsn \<and> system_step uni lsn cfg s t)\<^sup>*\<^sup>* new_system s" using assms(1,2) by simp
  then have "system_ok s" using system_runs.reachable_inv assms(3) by blast
  then show ?thesis by (simp add: system_ok_def shares_out_def)
qed

end
