(* ===== verification/HandlerRuns.thy ===== *)
theory HandlerRuns
  imports ServerRuns
begin

text \<open>
  Runs of a single handler in the concurrent server of \<open>ServerRuns\<close>: every run ends, or waits
  for the TLS handshake of its peer; a null tunnel stops the server; and a run that others
  interrupt can leave a registration without a connection.
\<close>

section \<open>Whole runs of a handler\<close>

definition handler_moves :: "(string \<Rightarrow> string) \<Rightarrow> net_listen \<Rightarrow> server_config \<Rightarrow> nat
    \<Rightarrow> handler \<times> server \<Rightarrow> handler \<times> server \<Rightarrow> bool" where
  "handler_moves uni lsn cfg c a b \<longleftrightarrow> (\<exists>x. handler_step uni lsn cfg c x (fst a) (snd a) (fst b) (snd b))"

abbreviation handler_runs :: "(string \<Rightarrow> string) \<Rightarrow> net_listen \<Rightarrow> server_config \<Rightarrow> nat
    \<Rightarrow> handler \<times> server \<Rightarrow> handler \<times> server \<Rightarrow> bool" where
  "handler_runs uni lsn cfg c \<equiv> (handler_moves uni lsn cfg c)\<^sup>*\<^sup>*"

lemma handler_runs_step:
  "\<lbrakk>handler_step uni lsn cfg c x h p h' q; handler_runs uni lsn cfg c (h', q) b\<rbrakk> \<Longrightarrow>
     handler_runs uni lsn cfg c (h, p) b"
  by (rule converse_rtranclp_into_rtranclp) (auto simp: handler_moves_def)

lemma handler_runs_one: "handler_step uni lsn cfg c x h p h' q \<Longrightarrow> handler_runs uni lsn cfg c (h, p) (h', q)"
  by (erule handler_runs_step) simp

lemma handler_runs_trans:
  "\<lbrakk>handler_runs uni lsn cfg c a b; handler_runs uni lsn cfg c b d\<rbrakk> \<Longrightarrow> handler_runs uni lsn cfg c a d"
  by (rule rtranclp_trans)

text \<open>The range over the tunnels, step by step.\<close>

lemma opening_runs:
  "collect_tunnels lsn (BaseDomain cfg) rest x (open_listeners (env p)) = (r, x', opened) \<Longrightarrow>
     handler_runs uni lsn cfg c (Opening i ts rest x, p)
       (case r of
          Collected \<Rightarrow> (Opening i ts [] x', p\<lparr>env := (env p)\<lparr>open_listeners := opened\<rparr>\<rparr>)
        | Rollback err \<Rightarrow> (RollingBack i err x', p\<lparr>env := (env p)\<lparr>open_listeners := opened\<rparr>\<rparr>)
        | NilTunnel \<Rightarrow> (Ended Crashed, p\<lparr>env := (env p)\<lparr>open_listeners := opened\<rparr>\<rparr>))"
proof (induction rest arbitrary: x p)
  case Nil
  then show ?case by auto
next
  case (Cons t rest)
  obtain n t' where t: "t = (n, t')" by fastforce
  show ?case
  proof (cases t')
    case None
    with Cons.prems t handler_runs_one [OF panics [of uni lsn cfg c _ i ts n rest x p]] show ?thesis by auto
  next
    case (Some u)
    obtain r1 x1 o1 where one: "collect_tunnels lsn (BaseDomain cfg) [t] x (open_listeners (env p)) = (r1, x1, o1)"
      by (metis prod_cases3)
    let ?p1 = "p\<lparr>env := (env p)\<lparr>open_listeners := o1\<rparr>\<rparr>"
    show ?thesis
    proof (cases r1)
      case Collected
      have "collect_tunnels lsn (BaseDomain cfg) rest x1 o1 = (r, x', opened)"
        using Cons.prems one Collected by (auto simp: t Some split: if_splits sum.splits)
      with Cons.IH [of x1 ?p1] have "handler_runs uni lsn cfg c (Opening i ts rest x1, ?p1)
        (case r of
          Collected \<Rightarrow> (Opening i ts [] x', p\<lparr>env := (env p)\<lparr>open_listeners := opened\<rparr>\<rparr>)
        | Rollback err \<Rightarrow> (RollingBack i err x', p\<lparr>env := (env p)\<lparr>open_listeners := opened\<rparr>\<rparr>)
        | NilTunnel \<Rightarrow> (Ended Crashed, p\<lparr>env := (env p)\<lparr>open_listeners := opened\<rparr>\<rparr>))"
        by (cases r) simp_all
      with opens [OF one [unfolded Collected]] show ?thesis by (rule handler_runs_step)
    next
      case (Rollback err)
      then have "r = Rollback err" "x1 = x'" "o1 = opened"
        using Cons.prems one by (auto simp: t Some split: if_splits sum.splits)
      with fails [OF one [unfolded Rollback]] show ?thesis by (auto intro: handler_runs_one)
    next
      case NilTunnel
      with one show ?thesis by (auto simp: t Some split: if_splits sum.splits)
    qed
  qed
qed

section \<open>Every handler ends\<close>

primrec stage :: "handler \<Rightarrow> nat" where
  "stage Absent = 10"
| "stage Arrived = 9"
| "stage (Known i) = 8"
| "stage (Pooled i) = 7"
| "stage (Evicting i cc next) = Suc (stage next)"
| "stage (Asked i cc) = 6"
| "stage (Opening i ts rest x) = 5"
| "stage (RollingBack i e x) = 4"
| "stage (Starting i ts x) = 4"
| "stage (Registered i ts) = 3"
| "stage (Rejecting i e) = 3"
| "stage (Deleting i e) = 1"
| "stage (Ended res) = 0"

definition remaining :: "handler \<Rightarrow> nat" where
  "remaining h = (case h of Opening _ _ rest _ \<Rightarrow> length rest | RollingBack _ _ y \<Rightarrow> length (Listeners y) | _ \<Rightarrow> 0)"

lemma handler_step_decreases:
  "handler_step uni lsn cfg c x h p h' q \<Longrightarrow> stage h' < stage h \<or> stage h' = stage h \<and> remaining h' < remaining h"
  by (induction rule: handler_step.induct)
    (auto simp: remaining_def push_begins_def le_imp_less_Suc split: option.splits if_splits)

lemma handler_stops:
  "handler_step uni lsn cfg c x h p h' q \<Longrightarrow>
     h \<noteq> Absent \<and> (\<nexists>res. h = Ended res) \<and> \<not> (h = Arrived \<and> peer x = None)"
  by (erule handler_step.cases) auto

text \<open>What the outside answers decides the step.\<close>

inductive_cases arrived_step: "handler_step uni lsn cfg c x Arrived p h q"
inductive_cases known_step: "handler_step uni lsn cfg c x (Known i) p h q"
inductive_cases pooled_step: "handler_step uni lsn cfg c x (Pooled i) p h q"
inductive_cases evicting_step: "handler_step uni lsn cfg c x (Evicting i cc after) p h q"
inductive_cases asked_step: "handler_step uni lsn cfg c x (Asked i cc) p h q"
inductive_cases opening_step: "handler_step uni lsn cfg c x (Opening i ts rest y) p h q"
inductive_cases rolling_step: "handler_step uni lsn cfg c x (RollingBack i err y) p h q"
inductive_cases starting_step: "handler_step uni lsn cfg c x (Starting i ts y) p h q"
inductive_cases registered_step: "handler_step uni lsn cfg c x (Registered i ts) p h q"
inductive_cases rejecting_step: "handler_step uni lsn cfg c x (Rejecting i e) p h q"
inductive_cases deleting_step: "handler_step uni lsn cfg c x (Deleting i e) p h q"

lemma handler_step_deterministic:
  assumes one: "handler_step uni lsn cfg c x h p h1 q1" and two: "handler_step uni lsn cfg c x h p h2 q2"
  shows "h1 = h2 \<and> q1 = q2"
proof (cases h)
  case (Opening i ts rest y)
  show ?thesis using one [unfolded Opening] two [unfolded Opening] by (elim opening_step) auto
next
  case Arrived
  show ?thesis using one [unfolded Arrived] two [unfolded Arrived] by (elim arrived_step) simp_all
next
  case (Known i)
  show ?thesis using one [unfolded Known] two [unfolded Known] by (elim known_step) simp_all
next
  case (Pooled i)
  show ?thesis using one [unfolded Pooled] two [unfolded Pooled] by (elim pooled_step) simp_all
next
  case (Asked i cc)
  show ?thesis using one [unfolded Asked] two [unfolded Asked] by (elim asked_step) simp_all
next
  case (RollingBack i err y)
  show ?thesis using one [unfolded RollingBack] two [unfolded RollingBack] by (elim rolling_step) simp_all
next
  case (Registered i ts)
  show ?thesis using one [unfolded Registered] two [unfolded Registered] by (elim registered_step) simp_all
next
  case (Rejecting i e)
  show ?thesis using one [unfolded Rejecting] two [unfolded Rejecting] by (elim rejecting_step) simp_all
qed (use handler_stops one two in \<open>blast elim: evicting_step starting_step deleting_step\<close>)+

lemma opening_progress: "\<exists>h' q. handler_step uni lsn cfg c x (Opening i ts rest y) p h' q"
proof (cases rest)
  case Nil
  show ?thesis
  proof (cases "registry_set y i (reg (env p))")
    case (Inl e)
    with Nil not_set show ?thesis by blast
  next
    case (Inr r)
    with Nil sets show ?thesis by blast
  qed
next
  case (Cons t rest')
  obtain r y1 o1 where one: "collect_tunnels lsn (BaseDomain cfg) [t] y (open_listeners (env p)) = (r, y1, o1)"
    by (metis prod_cases3)
  show ?thesis
  proof (cases r)
    case NilTunnel
    with one obtain n where "t = (n, None)"
      using collect_tunnels_NilTunnel [of lsn _ "[t]"] by fastforce
    with Cons panics show ?thesis by blast
  next
    case Collected
    with one Cons opens show ?thesis by blast
  next
    case (Rollback err)
    with fails [OF one [unfolded Rollback]] Cons show ?thesis by blast
  qed
qed

lemma arrived_progress:
  fixes x :: outside
  assumes "peer x = Some who"
  shows "\<exists>h' q. handler_step uni lsn cfg c x Arrived p h' q"
proof (cases who)
  case (Peer i)
  with assms show ?thesis
    by (cases "AutoSubscribe cfg"; cases "is_subscribed (reg (env p)) i") (blast intro: handler_step.intros)+
qed (use assms in \<open>blast intro: handler_step.intros\<close>)+

lemma known_progress:
  fixes x :: outside
  assumes "fresh_client (connects x) p"
  shows "\<exists>h' q. handler_step uni lsn cfg c x (Known i) p h' q"
proof (cases "deadline x")
  case None
  obtain r q where "add_conn uni (Some released) (pings x) (connects x) c i p = (r, q)" by fastforce
  with None assms show ?thesis by (cases r) (blast intro: handler_step.intros)+
qed (blast intro: handler_step.intros)

lemma pooled_progress: "\<exists>h' q. handler_step uni lsn cfg c x (Pooled i) p h' q"
proof (cases "requests x")
  case None
  then show ?thesis
  proof (cases "conns p (pool_addr i)")
    case (Some cp)
    with None show ?thesis by (cases "usable x (client_conn cp)") (blast intro: handler_step.intros)+
  qed (blast intro: handler_step.intros)
qed (blast intro: handler_step.intros)

lemma handler_progress:
  fixes x :: outside
  assumes "h \<noteq> Absent" "\<nexists>res. h = Ended res" "\<not> (h = Arrived \<and> peer x = None)" "fresh_client (connects x) p"
  shows "\<exists>h' q. handler_step uni lsn cfg c x h p h' q"
proof (cases h)
  case Arrived
  with assms(3) obtain who where "peer x = Some who" by auto
  with arrived_progress [OF this] Arrived show ?thesis by simp
next
  case (Known i)
  with known_progress assms(4) show ?thesis by blast
next
  case (Pooled i)
  with pooled_progress show ?thesis by blast
next
  case (Asked i cc)
  then show ?thesis by (cases "check_response (responds x cc)") (blast intro: handler_step.intros)+
next
  case (Opening i ts rest y)
  with opening_progress show ?thesis by blast
next
  case (RollingBack i err y)
  then show ?thesis by (cases "Listeners y") (blast intro: handler_step.intros)+
next
  case (Registered i ts)
  then show ?thesis using no_hosts informs [OF refl] by (metis prod.exhaust)
next
  case (Rejecting i e)
  then show ?thesis using tells by (metis prod.exhaust)
qed (use assms(1,2) in \<open>blast intro: handler_step.intros\<close>)+

text \<open>
  C9: Whatever the outside answers and whatever the other handlers do to the shared state
  between its steps, a handler takes finitely many steps: none of them retries. In every state
  but two the answers of the outside determine exactly one next step, so that it gets stuck
  nowhere: the exceptions are its end, and the wait for the TLS handshake of its peer, which
  has no deadline.
\<close>

theorem handler_terminates:
  fixes x :: outside
  assumes "fresh_client (connects x) p"
  shows "wf {(h', h). \<exists>x p q. handler_step uni lsn cfg c x h p h' q} \<and>
    ((\<exists>!(h', q). handler_step uni lsn cfg c x h p h' q) \<longleftrightarrow>
       h \<noteq> Absent \<and> (\<nexists>res. h = Ended res) \<and> \<not> (h = Arrived \<and> peer x = None))"
proof
  show "wf {(h', h). \<exists>x p q. handler_step uni lsn cfg c x h p h' q}"
    by (rule wf_subset [OF wf_measures [of "[stage, remaining]"]]) (auto dest: handler_step_decreases)
  show "(\<exists>!(h', q). handler_step uni lsn cfg c x h p h' q) \<longleftrightarrow>
      h \<noteq> Absent \<and> (\<nexists>res. h = Ended res) \<and> \<not> (h = Arrived \<and> peer x = None)"
  proof
    assume "\<exists>!(h', q). handler_step uni lsn cfg c x h p h' q"
    then show "h \<noteq> Absent \<and> (\<nexists>res. h = Ended res) \<and> \<not> (h = Arrived \<and> peer x = None)"
      using handler_stops by (metis (no_types, lifting) case_prod_unfold)
  next
    assume "h \<noteq> Absent \<and> (\<nexists>res. h = Ended res) \<and> \<not> (h = Arrived \<and> peer x = None)"
    then obtain h' q where "handler_step uni lsn cfg c x h p h' q" using handler_progress assms by metis
    with handler_step_deterministic show "\<exists>!(h', q). handler_step uni lsn cfg c x h p h' q"
      by (intro ex1I [of _ "(h', q)"]) fastforce+
  qed
qed

text \<open>The answers to the handler of the sample client.\<close>

definition sample_outside :: outside where
  "sample_outside = \<lparr>peer = Some (Peer zero_ID), deadline = None, pings = (\<lambda>_. False), connects = Inr 10,
     requests = None, usable = (\<lambda>_. True), transmits = (\<lambda>_. True),
     responds = (\<lambda>_. Response 200 20 (BodyTunnels sample_tunnels))\<rparr>"

theorem handler_terminates_witness:
  "(\<exists>!(h', q). handler_step id sample_listen sample_config 1 sample_outside Arrived sample_server h' q) \<and>
   \<not> (\<exists>!(h', q). handler_step id sample_listen sample_config 1 (sample_outside\<lparr>peer := None\<rparr>) Arrived sample_server h' q)"
proof -
  have "fresh_client (connects sample_outside) sample_server"
      "fresh_client (connects (sample_outside\<lparr>peer := None\<rparr>)) sample_server"
    by (simp_all add: fresh_client_def sample_server_def)
  from this [THEN handler_terminates [where h = Arrived]] show ?thesis by (simp add: sample_outside_def)
qed

section \<open>A null tunnel\<close>

lemma crashed_stays: "crashed s \<Longrightarrow> \<not> system_step uni lsn cfg s t"
  by (auto elim: system_step.cases)

text \<open>
  C8: One client can stop the server for all. If the tunnels with which an admitted client
  answers the handshake contain a null, and the range over the map comes to it first, then
  the handler's next step is a panic that nobody recovers from, and nothing happens any more:
  the other clients' connections, names and listeners end with the process.
\<close>

theorem null_tunnel_stops_server:
  fixes x :: outside
  assumes "handlers s c = Asked i cc" and "\<not> crashed s"
    and "check_response (responds x cc) = Inr ((name, None) # rest)"
  shows "\<exists>s'. system_step uni lsn cfg s s' \<and>
    handlers s' c = Opening i ((name, None) # rest) ((name, None) # rest) \<lparr>Hosts = [], Listeners = []\<rparr> \<and>
    (\<exists>s''. system_step uni lsn cfg s' s'' \<and> crashed s'' \<and> (\<nexists>t. system_step uni lsn cfg s'' t))"
proof -
  let ?h = "Opening i ((name, None) # rest) ((name, None) # rest) \<lparr>Hosts = [], Listeners = []\<rparr>"
  let ?s1 = "(goes c ?h (srv s) s)\<lparr>crashed := (?h = Ended Crashed)\<rparr>"
  let ?s2 = "(goes c (Ended Crashed) (srv s) ?s1)\<lparr>crashed := (Ended Crashed = Ended Crashed)\<rparr>"
  have "handler_step uni lsn cfg c x (handlers s c) (srv s) ?h (srv s)"
    unfolding assms(1) by (rule answer [OF assms(3)])
  from moves [OF assms(2) this] have "system_step uni lsn cfg s ?s1" .
  moreover have at_null: "\<not> crashed ?s1" "handlers ?s1 c = ?h" "srv ?s1 = srv s" by (simp_all add: goes_def)
  have "handler_step uni lsn cfg c x (handlers ?s1 c) (srv ?s1) (Ended Crashed) (srv s)"
    unfolding at_null(2,3) by (rule panics)
  from moves [OF at_null(1) this] have "system_step uni lsn cfg ?s1 ?s2" .
  moreover have "crashed ?s2" by simp
  ultimately show ?thesis using at_null(2) crashed_stays by blast
qed

text \<open>The sample client, waiting for its handshake, and the answer with a null.\<close>

theorem null_tunnel_stops_server_witness:
  "\<exists>s''. (system_step id sample_listen sample_config)\<^sup>*\<^sup>* (goes 1 (Asked zero_ID 10) sample_server new_system) s'' \<and>
     crashed s'' \<and> (\<nexists>t. system_step id sample_listen sample_config s'' t)"
proof -
  let ?s = "goes 1 (Asked zero_ID 10) sample_server new_system"
  let ?x = "sample_outside\<lparr>responds := \<lambda>_. Response 200 8 (BodyTunnels [(''x'', None)])\<rparr>"
  have "handlers ?s 1 = Asked zero_ID 10" "\<not> crashed ?s" by (simp_all add: goes_def new_system_def)
  moreover have "check_response (responds ?x 10) = Inr [(''x'', None)]"
    by (simp add: check_response_def)
  ultimately obtain s1 s2 where "system_step id sample_listen sample_config ?s s1"
      "system_step id sample_listen sample_config s1 s2" "crashed s2"
      "\<nexists>t. system_step id sample_listen sample_config s2 t"
    using null_tunnel_stops_server [of ?s 1 zero_ID 10 ?x "''x''" "[]" id sample_listen sample_config] by blast
  then show ?thesis by (meson r_into_rtranclp rtranclp.rtrancl_into_rtrancl)
qed

section \<open>A registration without a connection\<close>

text \<open>Runs of one handler are runs of the system.\<close>

lemma system_runs_handler:
  assumes "handler_runs uni lsn cfg c (h, p) (h', q)" and "h' \<noteq> Ended Crashed" and "\<not> crashed s"
    and "handlers s c = h" and "srv s = p"
  shows "(system_step uni lsn cfg)\<^sup>*\<^sup>* s (goes c h' q s)"
proof -
  have "fst b \<noteq> Ended Crashed \<longrightarrow> (system_step uni lsn cfg)\<^sup>*\<^sup>* s (goes c (fst b) (snd b) s)"
    if "handler_runs uni lsn cfg c (h, p) b" for b
    using that
  proof (induction rule: rtranclp_induct)
    case base
    have "goes c h p s = s" using assms(4,5) by (auto simp: goes_def)
    then show ?case by simp
  next
    case (step b d)
    then obtain x where move: "handler_step uni lsn cfg c x (fst b) (snd b) (fst d) (snd d)"
      by (auto simp: handler_moves_def)
    then have "fst b \<noteq> Ended Crashed" by (auto elim: handler_step.cases)
    with step.IH have "(system_step uni lsn cfg)\<^sup>*\<^sup>* s (goes c (fst b) (snd b) s)" by simp
    moreover have "system_step uni lsn cfg (goes c (fst b) (snd b) s) (goes c (fst d) (snd d) s)"
      if "fst d \<noteq> Ended Crashed"
    proof -
      let ?b = "goes c (fst b) (snd b) s"
      have "\<not> crashed ?b" "handler_step uni lsn cfg c x (handlers ?b c) (srv ?b) (fst d) (snd d)"
        using move assms(3) by (simp_all add: goes_def)
      from moves [OF this] have "system_step uni lsn cfg ?b
          ((goes c (fst d) (snd d) ?b)\<lparr>crashed := (fst d = Ended Crashed)\<rparr>)" .
      moreover have "(goes c (fst d) (snd d) ?b)\<lparr>crashed := (fst d = Ended Crashed)\<rparr> = goes c (fst d) (snd d) s"
        using that assms(3) by (cases s) (simp add: goes_def)
      ultimately show ?thesis by (simp only:)
    qed
    ultimately show ?case by (auto intro: rtranclp.rtrancl_into_rtrancl)
  qed
  from this [OF assms(1)] assms(2) show ?thesis by simp
qed

text \<open>
  The state of the sample server when its one client has answered the handshake on a
  connection that has died since.
\<close>

definition orphaning :: server where
  "orphaning = \<lparr>conns = Map.empty, closed_conns = [1], env = sample_world\<rparr>"

definition orphan_world :: world where
  "orphan_world = \<lparr>reg = \<lparr>items = [zero_ID \<mapsto> Owned \<lparr>Hosts = [''app.example.com''], Listeners = [3]\<rparr>],
      hosts = [''app.example.com'' \<mapsto> zero_ID]\<rparr>,
    open_listeners = {3}, closing = {}, serving = [(3, zero_ID)], pushes = []\<rparr>"

lemma sample_asked:
  "handler_runs id sample_listen sample_config 1 (Arrived, sample_server)
     (Asked zero_ID 10, sample_server\<lparr>conns := [pool_addr zero_ID \<mapsto> \<lparr>conn = 1, client_conn = 10\<rparr>]\<rparr>)"
proof -
  let ?p = "sample_server\<lparr>conns := [pool_addr zero_ID \<mapsto> \<lparr>conn = 1, client_conn = 10\<rparr>]\<rparr>"
  let ?step = "handler_step id sample_listen sample_config 1 sample_outside"
  have "?step Arrived sample_server (Known zero_ID) sample_server"
    by (rule listed) (simp_all add: sample_server_def sample_outside_def)
  moreover have "?step (Known zero_ID) sample_server (Pooled zero_ID) ?p"
    by (rule added)
      (simp_all add: add_conn_def put_conn_def sample_server_def fresh_client_def sample_outside_def)
  moreover have "?step (Pooled zero_ID) ?p (Asked zero_ID 10) ?p"
    using asks [of sample_outside ?p zero_ID "\<lparr>conn = 1, client_conn = 10\<rparr>"] by (simp add: sample_outside_def)
  ultimately show ?thesis by (meson handler_runs_one handler_runs_step)
qed

lemma sample_orphaned:
  "handler_runs id sample_listen sample_config 1 (Asked zero_ID 10, orphaning)
     (Ended Connected, orphaning\<lparr>env := orphan_world\<rparr>)"
proof -
  let ?step = "handler_step id sample_listen sample_config 1 sample_outside"
  let ?none = "\<lparr>Hosts = [], Listeners = []\<rparr>" and ?item = "\<lparr>Hosts = [''app.example.com''], Listeners = [3]\<rparr>"
  let ?p1 = "orphaning\<lparr>env := sample_world\<lparr>open_listeners := {3}\<rparr>\<rparr>"
  let ?p2 = "orphaning\<lparr>env := orphan_world\<lparr>serving := []\<rparr>\<rparr>"
  let ?p3 = "orphaning\<lparr>env := orphan_world\<rparr>"
  have "?step (Asked zero_ID 10) orphaning (Opening zero_ID sample_tunnels sample_tunnels ?none) orphaning"
    by (rule answer) (simp add: check_response_def sample_outside_def)
  moreover have "collect_tunnels sample_listen (BaseDomain sample_config) sample_tunnels ?none
      (open_listeners (env orphaning)) = (Collected, ?item, {3})"
    using valid_app by (simp add: sample_tunnels_def sample_listen_def protocol_names orphaning_def
        sample_world_def eval_nat_numeral)
  from opening_runs [OF this]
  have "handler_runs id sample_listen sample_config 1 (Opening zero_ID sample_tunnels sample_tunnels ?none, orphaning)
      (Opening zero_ID sample_tunnels [] ?item, ?p1)"
    by (simp add: orphaning_def)
  moreover have "?step (Opening zero_ID sample_tunnels [] ?item) ?p1 (Starting zero_ID sample_tunnels ?item) ?p2"
    using sets [of ?item zero_ID ?p1 "reg orphan_world"]
    by (simp add: registry_set_def orphaning_def orphan_world_def sample_world_def subscribe_def new_registry_def)
  moreover have "?step (Starting zero_ID sample_tunnels ?item) ?p2 (Registered zero_ID sample_tunnels) ?p3"
    using starts [of _ _ _ _ _ zero_ID sample_tunnels ?item ?p2] by (simp add: orphan_world_def)
  moreover have "?step (Registered zero_ID sample_tunnels) ?p3 (Ended Connected) ?p3"
    by (rule informs [OF refl]) (simp_all add: push_begins_def orphaning_def)
  ultimately show ?thesis by (meson handler_runs_one handler_runs_step handler_runs_trans)
qed

definition orphaned :: system where
  "orphaned = \<lparr>srv = orphaning\<lparr>env := orphan_world\<rparr>,
     handlers = (\<lambda>_. Absent)(1 := Ended Connected), handed = {}, crashed = False\<rparr>"

lemma sample_world_released [simp]: "released zero_ID sample_world = sample_world"
  by (simp add: released_def registry_clear_def sample_world_def subscribe_def new_registry_def)

lemma orphaned_reachable: "(system_step id sample_listen sample_config)\<^sup>*\<^sup>* new_system orphaned"
proof -
  let ?step = "system_step id sample_listen sample_config"
  let ?s1 = "new_system\<lparr>srv := sample_server\<rparr>"
  let ?s2 = "goes 1 Arrived sample_server ?s1"
  let ?p = "sample_server\<lparr>conns := [pool_addr zero_ID \<mapsto> \<lparr>conn = 1, client_conn = 10\<rparr>]\<rparr>"
  let ?s3 = "goes 1 (Asked zero_ID 10) ?p ?s2"
  let ?s4 = "?s3\<lparr>srv := orphaning\<rparr>"
  have "?step new_system ?s1"
    using allows [of new_system id sample_listen sample_config zero_ID]
    by (simp add: new_system_def new_server_def sample_server_def sample_world_def)
  moreover have "?step ?s1 ?s2"
    using arrives [of ?s1 1] by (simp add: new_system_def)
  moreover have "?step\<^sup>*\<^sup>* ?s2 ?s3"
    by (rule system_runs_handler [OF sample_asked]) (simp_all add: goes_def new_system_def)
  moreover have "?step ?s3 ?s4"
    using dies [of ?s3 id sample_listen sample_config 10 "[pool_addr zero_ID]"]
    by (simp add: goes_def new_system_def orphaning_def sample_server_def pool_close_def close_conn_def)
  moreover have "?step\<^sup>*\<^sup>* ?s4 (goes 1 (Ended Connected) (orphaning\<lparr>env := orphan_world\<rparr>) ?s4)"
    by (rule system_runs_handler [OF sample_orphaned]) (simp_all add: goes_def new_system_def)
  moreover have "goes 1 (Ended Connected) (orphaning\<lparr>env := orphan_world\<rparr>) ?s4 = orphaned"
    by (simp add: goes_def new_system_def orphaned_def)
  ultimately show ?thesis
    by (metis (no_types, lifting) converse_rtranclp_into_rtranclp rtranclp_trans)
qed

lemma owned_item_refuses:
  "items (reg w) i = Some (Owned x) \<Longrightarrow> fst (add_tunnels lsn cfg ts i w) \<noteq> Added"
  by (auto simp: add_tunnels_def registry_set_def split: collected.splits prod.splits)

text \<open>
  C6: A registration can outlive its connection. If the connection dies between the answer
  to the handshake and the end of \<open>addTunnels\<close>, \<open>disconnected\<close> finds nothing to clear, and the
  tunnels are registered for a client that is no longer in the pool: its hosts resolve, its
  listeners are open, and every handler has ended. They stay until the client comes back,
  which is then refused, whatever it asks for.
\<close>

theorem registration_outlives_connection:
  "\<exists>s. (system_step id sample_listen sample_config)\<^sup>*\<^sup>* new_system s \<and> \<not> crashed s \<and>
     list_all (\<lambda>c. handlers s c \<in> {Absent, Ended Connected}) [0, 1, 2] \<and>
     conns (srv s) (pool_addr zero_ID) = None \<and>
     subscriber (reg (env (srv s))) ''app.example.com'' = Some zero_ID \<and> open_listeners (env (srv s)) = {3} \<and>
     (\<forall>lsn cfg ts. fst (add_tunnels lsn cfg ts zero_ID (env (srv s))) \<noteq> Added)"
proof -
  have "fst (add_tunnels lsn cfg ts zero_ID (env (srv orphaned))) \<noteq> Added" for lsn cfg ts
    by (rule owned_item_refuses) (simp add: orphaned_def orphan_world_def)
  moreover have "subscriber (reg (env (srv orphaned))) ''app.example.com'' = Some zero_ID"
    by (simp add: orphaned_def orphan_world_def subscriber_def)
  ultimately show ?thesis
    using orphaned_reachable
    by (intro exI [of _ orphaned]) (simp add: orphaned_def orphaning_def orphan_world_def)
qed

theorem concurrent_server_consistent_witness:
  "(\<Union>x. owned orphaned x) = {3} \<and> owned orphaned (Client zero_ID) \<inter> owned orphaned Caller = {}"
proof -
  have run: "\<not> crashed orphaned" "open_listeners (env (srv orphaned)) = {3}"
    by (simp_all add: orphaned_def orphan_world_def)
  note ok = concurrent_server_consistent [OF sample_listen_fresh orphaned_reachable run(1)]
  then have "(\<Union>x. owned orphaned x) = {3}" unfolding run(2) by (elim conjE)
  moreover have "owned orphaned (Client zero_ID) \<inter> owned orphaned Caller = {}"
    using ok by (elim conjE allE [of _ "Client zero_ID"] allE [of _ Caller]) simp
  ultimately show ?thesis ..
qed

end
