(* ===== verification/ServerAccess.thy ===== *)
theory ServerAccess
  imports HandlerRuns
begin

text \<open>
  Who is served by the concurrent server of \<open>ServerRuns\<close> when clients are not subscribed
  automatically: the clients some caller has subscribed, and nobody else, in whatever order
  handlers, disconnections and removals happen.
\<close>

section \<open>What an operation can take away\<close>

text \<open>No client gains anything: nothing is subscribed, routed, served or pooled that was not.\<close>

definition gains_nothing :: "world \<Rightarrow> world \<Rightarrow> bool" where
  "gains_nothing w w' \<longleftrightarrow> dom (items (reg w')) \<subseteq> dom (items (reg w)) \<and>
     ran (hosts (reg w')) \<subseteq> ran (hosts (reg w)) \<and> set (serving w') \<subseteq> set (serving w)"

definition shrinks :: "server \<Rightarrow> server \<Rightarrow> bool" where
  "shrinks p q \<longleftrightarrow> dom (conns q) \<subseteq> dom (conns p) \<and> gains_nothing (env p) (env q)"

lemma shrinks_refl [simp]: "shrinks p p"
  by (simp add: shrinks_def gains_nothing_def)

lemma shrinks_trans [trans]: "\<lbrakk>shrinks p q; shrinks q s\<rbrakk> \<Longrightarrow> shrinks p s"
  unfolding shrinks_def gains_nothing_def by blast

lemma shrinks_close_conn [simp]: "shrinks p (close_conn c q) = shrinks p q"
  by (simp add: shrinks_def)

lemma shrinks_pushes [simp]: "shrinks p (q\<lparr>env := (env q)\<lparr>pushes := ps\<rparr>\<rparr>) = shrinks p q"
  by (simp add: shrinks_def gains_nothing_def)

lemma shrinks_listeners [simp]: "shrinks p (q\<lparr>env := (env q)\<lparr>open_listeners := ls\<rparr>\<rparr>) = shrinks p q"
  by (simp add: shrinks_def gains_nothing_def)

lemma ran_hosts_clear: "ran (hosts (snd (registry_clear i r))) \<subseteq> ran (hosts r)"
  by (auto simp: ran_def hosts_registry_clear split: if_splits)

lemma ran_hosts_unsubscribe: "ran (hosts (snd (unsubscribe i r))) \<subseteq> ran (hosts r)"
  by (auto simp: ran_def hosts_unsubscribe split: if_splits)

lemma dom_items_clear [simp]: "dom (items (snd (registry_clear i r))) = dom (items r)"
  by (auto simp: registry_clear_def split: option.split slot.split)

lemma dom_items_unsubscribe: "dom (items (snd (unsubscribe i r))) \<subseteq> dom (items r)"
  by (auto simp: unsubscribe_def split: option.split if_splits)

lemma dom_items_subscribe: "dom (items (subscribe i r)) = insert i (dom (items r))"
  by (auto simp: subscribe_def split: option.split)

lemma gains_nothing_released: "gains_nothing w (released i w)"
  using ran_hosts_clear by (simp add: gains_nothing_def)

lemma shrinks_pool_close: "shrinks p (pool_close uni (Some released) cp a p)"
proof -
  have "env (pool_close uni (Some released) cp a p) = released (pool_identifier uni a) (env p)"
    by (simp add: pool_close_def Let_def)
  then show ?thesis using gains_nothing_released by (auto simp: shrinks_def split: if_splits)
qed

lemma shrinks_evict: "shrinks p (pool_evict uni (Some released) cc a p)"
  by (simp add: pool_evict_def shrinks_pool_close split: option.split)

lemma shrinks_delete: "shrinks p (delete_conn uni (Some released) i p)"
  by (simp add: delete_conn_def Let_def shrinks_pool_close split: option.split)

lemma shrinks_dead: "shrinks p (mark_dead uni (Some released) cc order p)"
  by (induction uni "Some released" cc order p rule: mark_dead.induct)
    (simp_all add: shrinks_pool_close split: option.split)

section \<open>The invariant\<close>

text \<open>The clients a handler works for once it knows them.\<close>

primrec handler_clients :: "handler \<Rightarrow> ID set" where
  "handler_clients Absent = {}"
| "handler_clients Arrived = {}"
| "handler_clients (Known i) = {i}"
| "handler_clients (Pooled i) = {i}"
| "handler_clients (Evicting i cc next) = insert i (handler_clients next)"
| "handler_clients (Asked i cc) = {i}"
| "handler_clients (Opening i ts rest x) = {i}"
| "handler_clients (RollingBack i e x) = {i}"
| "handler_clients (Starting i ts x) = {i}"
| "handler_clients (Registered i ts) = {i}"
| "handler_clients (Rejecting i e) = {i}"
| "handler_clients (Deleting i e) = {i}"
| "handler_clients (Ended res) = {}"

lemma shrinks_push:
  "push_begins x i m next p = (h, q) \<Longrightarrow>
     shrinks p q \<and> handler_clients h \<subseteq> insert i (handler_clients next)"
  by (auto simp: push_begins_def split: option.splits if_splits)

definition serves_only :: "ID set \<Rightarrow> server \<Rightarrow> bool" where
  "serves_only A p \<longleftrightarrow> dom (conns p) \<subseteq> pool_addr ` A \<and> dom (items (reg (env p))) \<subseteq> A \<and>
     ran (hosts (reg (env p))) \<subseteq> A \<and> snd ` set (serving (env p)) \<subseteq> A"

definition admits_only :: "ID set \<Rightarrow> system \<Rightarrow> bool" where
  "admits_only A s \<longleftrightarrow> serves_only A (srv s) \<and> (\<forall>c. handler_clients (handlers s c) \<subseteq> A)"

text \<open>
  A caller of the server (a step in which no handler moves) subscribes nobody but clients of
  \<open>A\<close>. What the handlers subscribe is not restricted.
\<close>

definition lets_in :: "ID set \<Rightarrow> system \<Rightarrow> system \<Rightarrow> bool" where
  "lets_in A s t \<longleftrightarrow> handlers t = handlers s \<longrightarrow>
     dom (items (reg (env (srv t)))) \<subseteq> dom (items (reg (env (srv s)))) \<union> A"

lemma serves_only_shrinks: "\<lbrakk>serves_only A p; shrinks p q\<rbrakk> \<Longrightarrow> serves_only A q"
  unfolding serves_only_def shrinks_def gains_nothing_def by blast

lemma serves_only_add:
  assumes "serves_only A p" "i \<in> A" "add_conn uni (Some released) png ncc c i p = (r, q)"
  shows "serves_only A q"
proof -
  have put: "serves_only A (snd (put_conn ncc c (pool_addr i) p'))" if "serves_only A p'" for p'
    using that assms(2) by (auto simp: put_conn_def serves_only_def split: sum.split if_splits)
  have "q = snd (add_conn uni (Some released) png ncc c i p)" using assms(3) by simp
  then show ?thesis
    using put assms(1) serves_only_shrinks [OF assms(1) shrinks_pool_close]
    by (simp add: add_conn_def Let_def split: option.split)
qed

lemma serves_only_set:
  assumes "serves_only A p" "i \<in> A" "registry_set x i (reg (env p)) = Inr r"
  shows "serves_only A (p\<lparr>env := (env p)\<lparr>reg := r\<rparr>\<rparr>)"
proof -
  note set = registry_set_Inr [OF assms(3)]
  have "dom (items r) \<subseteq> A" using assms(1,2) by (auto simp: set(4) serves_only_def)
  moreover have "ran (hosts r) \<subseteq> insert i (ran (hosts (reg (env p))))"
    by (auto simp: ran_def set(3) split: if_splits)
  ultimately show ?thesis using assms(1,2) by (auto simp: serves_only_def)
qed

lemma handler_step_admits:
  assumes "handler_step uni lsn cfg c x h p h' q" "\<not> AutoSubscribe cfg" "serves_only A p"
    and "handler_clients h \<subseteq> A"
  shows "serves_only A q \<and> handler_clients h' \<subseteq> A"
  using assms
proof (cases rule: handler_step.cases)
  case (listed i)
  then have "i \<in> A" using assms(3) by (auto simp: serves_only_def is_subscribed_def)
  with listed assms(3) show ?thesis by simp
next
  case (not_added i e q')
  then have "serves_only A q'" using assms(3,4) serves_only_add by auto
  with not_added serves_only_shrinks [of A q' q] show ?thesis by simp
next
  case (added i)
  then show ?thesis using assms(3,4) serves_only_add by auto
next
  case (sets y i r ts)
  then show ?thesis using assms(3,4) serves_only_set by auto
next
  case (starts i ts y)
  then show ?thesis using assms(3,4) by (auto simp: serves_only_def)
next
  case (informs hs ts i)
  with assms(3,4) shrinks_push [OF informs(4)] serves_only_shrinks [of A p q] show ?thesis by auto
next
  case (tells i e)
  with assms(3,4) shrinks_push [OF tells(2)] serves_only_shrinks [of A p q] show ?thesis by auto
next
  case (rolls_back y l ls i err)
  then show ?thesis
    using assms(3,4) serves_only_shrinks [of A p q] by (simp add: close_listeners_def)
qed (use serves_only_shrinks [of A p q] shrinks_evict shrinks_delete in auto)

lemma admits_only_step:
  assumes "system_step uni lsn cfg s t" "\<not> AutoSubscribe cfg" "lets_in A s t" "admits_only A s"
  shows "admits_only A t"
  using assms(1)
proof (cases rule: system_step.cases)
  case (arrives c)
  then show ?thesis using assms(4) by (simp add: admits_only_def goes_def)
next
  case (moves c x h q)
  with handler_step_admits [OF moves(3) assms(2), of A] assms(4) show ?thesis
    by (simp add: admits_only_def goes_def)
next
  case (allows i)
  have "i \<in> A" using assms(3,4) allows by (auto simp: lets_in_def dom_items_subscribe admits_only_def serves_only_def)
  with allows assms(4) show ?thesis
    by (auto simp: admits_only_def serves_only_def dom_items_subscribe)
next
  case (unsubscribes i)
  have "shrinks (srv s) (srv t)"
    using unsubscribes(1) dom_items_unsubscribe ran_hosts_unsubscribe
    by (simp add: shrinks_def gains_nothing_def)
  with unsubscribes(1) assms(4) serves_only_shrinks show ?thesis by (auto simp: admits_only_def)
next
  case (disconnects i)
  with assms(4) serves_only_shrinks [OF _ shrinks_delete] show ?thesis by (simp add: admits_only_def)
next
  case (dies cc order)
  with assms(4) serves_only_shrinks [OF _ shrinks_dead] show ?thesis by (simp add: admits_only_def)
next
  case (request_evicts cc a)
  with assms(4) serves_only_shrinks [OF _ shrinks_evict] show ?thesis by (simp add: admits_only_def)
next
  case (closes l)
  have "shrinks (srv s) (srv t)" using closes(1) by (simp add: shrinks_def gains_nothing_def close_closing_def)
  with closes(1) assms(4) serves_only_shrinks show ?thesis by (auto simp: admits_only_def)
qed

interpretation admitted: invariant_system "\<lambda>s. s = new_system"
    "\<lambda>s t. \<not> AutoSubscribe cfg \<and> system_step uni lsn cfg s t \<and> lets_in A s t" "admits_only A"
    for uni lsn cfg A
proof unfold_locales
  show "admits_only A s" if "s = new_system" for s
    using that by (simp add: admits_only_def serves_only_def new_system_def new_server_def new_registry_def)
  show "admits_only A t"
    if "\<not> AutoSubscribe cfg \<and> system_step uni lsn cfg s t \<and> lets_in A s t" "admits_only A s" for s t
    using that admits_only_step by blast
qed

section \<open>Only subscribed clients are served\<close>

text \<open>
  C7: Without automatic subscription nobody gets in uninvited, however the server's goroutines
  interleave: if the callers of \<open>Subscribe\<close> never subscribe anyone but the clients of a set, then
  only these clients have a handler past their identification, a connection in the pool, a
  public name, or a listener whose connections are carried to them. The handlers themselves let
  nobody else in, whoever connects and whatever they are answered.
\<close>

theorem only_subscribed_served:
  assumes "\<not> AutoSubscribe cfg"
    and "(\<lambda>s t. system_step uni lsn cfg s t \<and> lets_in A s t)\<^sup>*\<^sup>* new_system s"
    and "i \<in> handler_clients (handlers s c) \<or> conns (srv s) (pool_addr i) \<noteq> None \<or>
      subscriber (reg (env (srv s))) h = Some i \<or> (l, i) \<in> set (serving (env (srv s)))"
  shows "i \<in> A"
proof -
  have "(\<lambda>s t. \<not> AutoSubscribe cfg \<and> system_step uni lsn cfg s t \<and> lets_in A s t)\<^sup>*\<^sup>* new_system s"
    using assms(1,2) by simp
  then have ok: "admits_only A s" by (rule admitted.reachable_inv [OF refl])
  from assms(3) show ?thesis
  proof (elim disjE)
    assume "i \<in> handler_clients (handlers s c)"
    moreover have "handler_clients (handlers s c) \<subseteq> A" using ok by (simp add: admits_only_def)
    ultimately show ?thesis by blast
  next
    assume "conns (srv s) (pool_addr i) \<noteq> None"
    then have "pool_addr i \<in> pool_addr ` A" using ok by (auto simp: admits_only_def serves_only_def)
    then show ?thesis by auto
  next
    assume "subscriber (reg (env (srv s))) h = Some i"
    then have "i \<in> ran (hosts (reg (env (srv s))))" by (auto simp: subscriber_def ran_def)
    then show ?thesis using ok by (auto simp: admits_only_def serves_only_def)
  next
    assume "(l, i) \<in> set (serving (env (srv s)))"
    then have "i \<in> snd ` set (serving (env (srv s)))" by force
    then show ?thesis using ok by (auto simp: admits_only_def serves_only_def)
  qed
qed

text \<open>The sample server with its client connected.\<close>

definition admitted_system :: system where
  "admitted_system = goes 1 (Pooled zero_ID)
     (sample_server\<lparr>conns := [pool_addr zero_ID \<mapsto> \<lparr>conn = 1, client_conn = 10\<rparr>]\<rparr>) new_system"

lemma admitted_reachable:
  "(\<lambda>s t. system_step id sample_listen sample_config s t \<and> lets_in {zero_ID} s t)\<^sup>*\<^sup>* new_system admitted_system"
proof -
  let ?step = "\<lambda>s t. system_step id sample_listen sample_config s t \<and> lets_in {zero_ID} s t"
  let ?s1 = "new_system\<lparr>srv := sample_server\<rparr>"
  let ?s2 = "goes 1 Arrived sample_server ?s1"
  let ?s3 = "goes 1 (Known zero_ID) sample_server ?s2"
  let ?p = "sample_server\<lparr>conns := [pool_addr zero_ID \<mapsto> \<lparr>conn = 1, client_conn = 10\<rparr>]\<rparr>"
  have p1: "?step new_system ?s1"
    using allows [of new_system id sample_listen sample_config zero_ID]
    by (simp add: new_system_def new_server_def sample_server_def sample_world_def lets_in_def dom_items_subscribe)
  have p2: "?step ?s1 ?s2"
    using arrives [of ?s1 1] by (auto simp: new_system_def lets_in_def goes_def)
  have p3: "?step ?s2 ?s3"
  proof -
    have "handler_step id sample_listen sample_config 1 sample_outside Arrived sample_server (Known zero_ID) sample_server"
      by (rule listed) (simp_all add: sample_server_def sample_outside_def)
    with moves [of ?s2 id sample_listen sample_config 1 sample_outside "Known zero_ID" sample_server] show ?thesis
      by (auto simp: goes_def new_system_def lets_in_def)
  qed
  have p4: "?step ?s3 admitted_system"
  proof -
    have "handler_step id sample_listen sample_config 1 sample_outside (Known zero_ID) sample_server (Pooled zero_ID) ?p"
      by (rule added)
        (simp_all add: add_conn_def put_conn_def sample_server_def fresh_client_def sample_outside_def)
    with moves [of ?s3 id sample_listen sample_config 1 sample_outside "Pooled zero_ID" ?p] show ?thesis
      by (auto simp: goes_def new_system_def lets_in_def admitted_system_def)
  qed
  note into = converse_rtranclp_into_rtranclp [of ?step]
  show ?thesis by (rule into [OF p1 into [OF p2 into [OF p3 into [OF p4 rtranclp.rtrancl_refl]]]])
qed

theorem only_subscribed_served_witness:
  "{i. conns (srv admitted_system) (pool_addr i) \<noteq> None} = {zero_ID}"
proof -
  have auto: "\<not> AutoSubscribe sample_config" by simp
  have "conns (srv admitted_system) (pool_addr zero_ID) \<noteq> None" by (simp add: admitted_system_def goes_def)
  moreover have "j \<in> {zero_ID}" if "conns (srv admitted_system) (pool_addr j) \<noteq> None" for j
    using only_subscribed_served [OF auto admitted_reachable, where i = j] that by blast
  ultimately show ?thesis by blast
qed

end
