(* ===== verification/RegistrySpec.thy ===== *)
theory RegistrySpec
  imports Registry
begin

text \<open>
  What the registry promises, without its two tables: a directory says for each client
  whether it may connect and, if it has registered, which names it holds. The registry
  (registry.go) implements the directory: the abstraction forgets the host table, and every
  operation of the code is the operation of the specification on the abstract state.
\<close>

section \<open>The specification\<close>

text \<open>\<open>None\<close>: not subscribed. \<open>Some None\<close>: subscribed, nothing registered.\<close>

type_synonym directory = "ID \<Rightarrow> string set option option"

definition dir_subscribe :: "ID \<Rightarrow> directory \<Rightarrow> directory" where
  "dir_subscribe i d = (if d i = None then d(i := Some None) else d)"

definition dir_owner :: "directory \<Rightarrow> string \<Rightarrow> ID \<Rightarrow> bool" where
  "dir_owner d k i \<longleftrightarrow> (\<exists>S. d i = Some (Some S) \<and> k \<in> S)"

definition dir_free :: "directory \<Rightarrow> string set \<Rightarrow> bool" where
  "dir_free d S \<longleftrightarrow> (\<forall>k i. dir_owner d k i \<longrightarrow> k \<notin> S)"

inductive dir_step :: "directory \<Rightarrow> directory \<Rightarrow> bool" where
  dir_allow: "dir_step d (dir_subscribe i d)"
| dir_remove: "dir_step d (d(i := None))"
| dir_claim: "\<lbrakk>d i = Some None; dir_free d S\<rbrakk> \<Longrightarrow> dir_step d (d(i := Some (Some S)))"
| dir_release: "d i = Some (Some S) \<Longrightarrow> dir_step d (d(i := Some None))"
| dir_skip: "dir_step d d"

section \<open>The abstraction\<close>

definition slot_claim :: "slot \<Rightarrow> string set option" where
  "slot_claim s = (case s of Void \<Rightarrow> None | Owned x \<Rightarrow> Some (item_keys x))"

definition directory_of :: "registry \<Rightarrow> directory" where
  "directory_of r i = map_option slot_claim (items r i)"

lemma directory_of_new: "directory_of new_registry = (\<lambda>_. None)"
  by (rule ext) (simp add: directory_of_def new_registry_def)

lemma owner_held: "dir_owner (directory_of r) k i \<longleftrightarrow> k \<in> held r i"
  by (auto simp: dir_owner_def directory_of_def slot_claim_def held_def split: option.splits slot.splits)

lemma dir_free_hosts:
  assumes "registry_ok r"
  shows "dir_free (directory_of r) S \<longleftrightarrow> (\<forall>k \<in> S. hosts r k = None)"
proof -
  have "hosts r k = None \<longleftrightarrow> (\<forall>i. k \<notin> held r i)" for k
    using registry_okD [OF assms, of k] by (metis option.exhaust option.distinct(1))
  then show ?thesis by (auto simp: dir_free_def owner_held)
qed

lemma directory_subscribe: "directory_of (subscribe i r) = dir_subscribe i (directory_of r)"
  by (rule ext) (auto simp: directory_of_def subscribe_def dir_subscribe_def slot_claim_def split: option.splits)

lemma directory_unsubscribe: "directory_of (snd (unsubscribe i r)) = (directory_of r)(i := None)"
  by (rule ext) (auto simp: directory_of_def unsubscribe_def split: option.splits)

lemma directory_clear:
  "directory_of (snd (registry_clear i r)) =
     (case directory_of r i of Some (Some _) \<Rightarrow> (directory_of r)(i := Some None) | _ \<Rightarrow> directory_of r)"
  by (rule ext)
    (auto simp: directory_of_def registry_clear_def slot_claim_def split: option.splits slot.splits)

lemma directory_set:
  assumes "registry_ok r"
  shows "case registry_set x i r of
      Inr r' \<Rightarrow> directory_of r i = Some None \<and> dir_free (directory_of r) (item_keys x) \<and>
        directory_of r' = (directory_of r)(i := Some (Some (item_keys x)))
    | Inl e \<Rightarrow> \<not> (directory_of r i = Some None \<and> dir_free (directory_of r) (item_keys x))"
proof (cases "registry_set x i r")
  case (Inr r')
  have "directory_of r' = (directory_of r)(i := Some (Some (item_keys x)))"
    by (rule ext) (simp add: directory_of_def registry_set_Inr(4) [OF Inr] slot_claim_def)
  moreover have "directory_of r i = Some None"
    using registry_set_Inr(1) [OF Inr] by (simp add: directory_of_def slot_claim_def)
  ultimately show ?thesis
    using Inr registry_set_Inr(2) [OF Inr] by (simp add: dir_free_hosts [OF assms])
next
  case (Inl e)
  then have "\<not> (items r i = Some Void \<and> (\<forall>k \<in> item_keys x. hosts r k = None))"
    using registry_set_Inr_iff [of x i r] by simp
  moreover have "directory_of r i = Some None \<longleftrightarrow> items r i = Some Void"
    by (cases "items r i") (auto simp: directory_of_def slot_claim_def split: slot.splits)
  ultimately show ?thesis using Inl by (simp add: dir_free_hosts [OF assms])
qed

text \<open>
  The registry refines its specification: a name belongs to a client in the directory
  exactly if the code looks this client up under it, and subscription is what the code
  tests; subscribing, unsubscribing and clearing act on the directory as specified; and
  \<open>set\<close> registers an item exactly when the client is subscribed without one and all of its
  names are free, and then the client holds these names.
\<close>

theorem registry_refines:
  assumes "registry_ok r"
  shows "(subscriber r h = Some i \<longleftrightarrow> dir_owner (directory_of r) (trim_port h) i) \<and>
    (is_subscribed r i \<longleftrightarrow> directory_of r i \<noteq> None) \<and>
    directory_of (subscribe i r) = dir_subscribe i (directory_of r) \<and>
    directory_of (snd (unsubscribe i r)) = (directory_of r)(i := None) \<and>
    directory_of (snd (registry_clear i r)) =
      (case directory_of r i of Some (Some _) \<Rightarrow> (directory_of r)(i := Some None) | _ \<Rightarrow> directory_of r) \<and>
    (case registry_set x i r of
       Inr r' \<Rightarrow> directory_of r i = Some None \<and> dir_free (directory_of r) (item_keys x) \<and>
         directory_of r' = (directory_of r)(i := Some (Some (item_keys x)))
     | Inl e \<Rightarrow> \<not> (directory_of r i = Some None \<and> dir_free (directory_of r) (item_keys x)))"
proof (intro conjI)
  show "subscriber r h = Some i \<longleftrightarrow> dir_owner (directory_of r) (trim_port h) i"
    by (simp add: owner_held subscriber_def registry_okD [OF assms])
  show "is_subscribed r i \<longleftrightarrow> directory_of r i \<noteq> None"
    by (simp add: is_subscribed_def directory_of_def)
qed (rule directory_subscribe directory_unsubscribe directory_clear directory_set [OF assms])+

lemma directory_step:
  assumes "registry_step r r'" "registry_ok r"
  shows "dir_step (directory_of r) (directory_of r')"
  using assms(1)
proof (cases rule: registry_step.cases)
  case (step_subscribe i)
  then show ?thesis by (simp add: directory_subscribe dir_allow)
next
  case (step_unsubscribe i)
  then show ?thesis by (simp add: directory_unsubscribe dir_remove)
next
  case (step_set x i)
  with directory_set [OF assms(2), where x = x and i = i] show ?thesis by (auto intro: dir_claim)
next
  case (step_clear i)
  then show ?thesis
    by (auto simp: directory_clear intro: dir_skip dir_release split: option.split)
qed

interpretation registry_impl: simulation "\<lambda>r. r = new_registry" registry_step registry_ok directory_of dir_step
  by unfold_locales (rule r_into_rtranclp, rule directory_step)

text \<open>
  Every run of the registry, from the empty one and through any sequence of its
  operations, is a run of the directory, so what is true of the names in all reachable
  directories is true of those of the code; in particular no name has two owners.
\<close>

theorem registry_runs_refine:
  assumes "registry_step\<^sup>*\<^sup>* new_registry r"
  shows "dir_step\<^sup>*\<^sup>* (\<lambda>_. None) (directory_of r) \<and>
    (\<exists>f. \<forall>k i. dir_owner (directory_of r) k i \<longleftrightarrow> f k = Some i)"
proof
  show "dir_step\<^sup>*\<^sup>* (\<lambda>_. None) (directory_of r)"
    using registry_impl.runs_refine [OF refl assms] by (simp add: directory_of_new)
  have "registry_ok r" using registry_runs.reachable_inv [OF refl assms] .
  then show "\<exists>f. \<forall>k i. dir_owner (directory_of r) k i \<longleftrightarrow> f k = Some i"
    by (auto simp: owner_held registry_ok_def intro!: exI [of _ "hosts r"])
qed

theorem registry_refines_witness:
  "subscriber sample_registry ''app.example.com'' = Some zero_ID \<and>
   dir_owner (directory_of sample_registry) ''app.example.com'' zero_ID"
  using registry_refines [OF sample_registry_ok, where h = "''app.example.com''" and i = zero_ID]
  by (simp add: subscriber_def sample_registry_def)

theorem registry_runs_refine_witness:
  "dir_step\<^sup>*\<^sup>* (\<lambda>_. None) (directory_of (subscribe zero_ID new_registry))"
proof -
  have "registry_step\<^sup>*\<^sup>* new_registry (subscribe zero_ID new_registry)"
    by (rule r_into_rtranclp) (rule step_subscribe)
  from registry_runs_refine [OF this] show ?thesis by (rule conjunct1)
qed

end
