(* ===== verification/ServerSpec.thy ===== *)
theory ServerSpec
  imports ServerAccess RegistrySpec
begin

text \<open>
  What the server promises to its clients, without its pool, its registry's items, its listeners
  and the goroutines that share them: a service that knows who may connect, who is connected,
  which public names each client holds and where a name leads. It is deterministic: an event is
  either not allowed in a state, or has one result. The concurrent server of \<open>ServerRuns\<close>
  follows it.
\<close>

section \<open>The service\<close>

record service =
  names :: directory
  routes :: "string \<rightharpoonup> ID"
  online :: "ID \<rightharpoonup> nat"

definition new_service :: service where
  "new_service = \<lparr>names = (\<lambda>_. None), routes = Map.empty, online = Map.empty\<rparr>"

text \<open>
  A client is allowed or removed; its connection joins or leaves; it claims its names. A client
  that leaves or is removed takes its names with it; one that has left may come back and one
  that is removed may not.
\<close>

datatype event = Allowed ID | Removed ID | Joined ID nat | Left ID | Claimed ID "string set"

definition drop_routes :: "ID \<Rightarrow> (string \<rightharpoonup> ID) \<Rightarrow> (string \<rightharpoonup> ID)" where
  "drop_routes i r = (\<lambda>k. if r k = Some i then None else r k)"

fun perform :: "event \<Rightarrow> service \<Rightarrow> service option" where
  "perform (Allowed i) s =
     (if names s i = None then Some (s\<lparr>names := (names s)(i := Some None)\<rparr>) else None)"
| "perform (Removed i) s =
     (if names s i = None then None
      else Some (s\<lparr>names := (names s)(i := None), routes := drop_routes i (routes s)\<rparr>))"
| "perform (Joined i c) s =
     (if online s i = None then Some (s\<lparr>online := (online s)(i \<mapsto> c)\<rparr>) else None)"
| "perform (Left i) s =
     (if online s i = None then None
      else Some (s\<lparr>online := (online s)(i := None), routes := drop_routes i (routes s),
        names := (if names s i = None then names s else (names s)(i := Some None))\<rparr>))"
| "perform (Claimed i S) s =
     (if names s i = Some None \<and> (\<forall>k \<in> S. routes s k = None)
      then Some (s\<lparr>names := (names s)(i := Some (Some S)),
        routes := (\<lambda>k. if k \<in> S then Some i else routes s k)\<rparr>)
      else None)"

section \<open>The events of a run\<close>

text \<open>
  What a step of the server does to a client, read off the pool and the items before and after
  it: the pooled connection has gone, or is a new one; the client is subscribed or no longer
  subscribed; its empty item has become one with names. An item that is emptied is no event of
  its own: it has to be explained by the connection's leaving.
\<close>

definition conn_events :: "server \<Rightarrow> server \<Rightarrow> ID \<Rightarrow> event list" where
  "conn_events p q i =
     (let old = conns p (pool_addr i); new = conns q (pool_addr i) in
      if new = old then []
      else (if old = None then [] else [Left i]) @
           (case new of None \<Rightarrow> [] | Some cp \<Rightarrow> [Joined i (conn cp)]))"

definition item_events :: "server \<Rightarrow> server \<Rightarrow> ID \<Rightarrow> event list" where
  "item_events p q i =
     (case (items (reg (env p)) i, items (reg (env q)) i) of
        (None, Some _) \<Rightarrow> [Allowed i]
      | (Some _, None) \<Rightarrow> [Removed i]
      | (Some Void, Some (Owned x)) \<Rightarrow> [Claimed i (item_keys x)]
      | _ \<Rightarrow> [])"

definition client_events :: "server \<Rightarrow> server \<Rightarrow> ID \<Rightarrow> event list" where
  "client_events p q i = conn_events p q i @ item_events p q i"

text \<open>A step concerns one client at most.\<close>

definition emits :: "system \<Rightarrow> system \<Rightarrow> event list \<Rightarrow> bool" where
  "emits s t ds \<longleftrightarrow> (\<exists>i. ds = client_events (srv s) (srv t) i \<and>
     (\<forall>j. j \<noteq> i \<longrightarrow> client_events (srv s) (srv t) j = []))"

section \<open>The abstraction\<close>

definition service_at :: "server \<Rightarrow> service" where
  "service_at p = \<lparr>names = directory_of (reg (env p)), routes = hosts (reg (env p)),
     online = (\<lambda>i. map_option conn (conns p (pool_addr i)))\<rparr>"

lemma service_at_new: "service_at new_server = new_service"
  by (simp add: service_at_def new_service_def new_server_def directory_of_new) (simp add: new_registry_def)

text \<open>The events of a step of client \<open>i\<close> explain it.\<close>

definition follows :: "ID \<Rightarrow> server \<Rightarrow> server \<Rightarrow> bool" where
  "follows i p q \<longleftrightarrow> (\<forall>j. j \<noteq> i \<longrightarrow> client_events p q j = []) \<and>
     performs perform (client_events p q i) (service_at p) = Some (service_at q)"

lemma follows_emits:
  assumes "follows i (srv s) (srv t)"
  shows "\<exists>ds. emits s t ds"
    and "emits s t ds \<Longrightarrow> performs perform ds (service_at (srv s)) = Some (service_at (srv t))"
proof -
  show "\<exists>ds. emits s t ds" using assms by (auto simp: follows_def emits_def)
next
  assume "emits s t ds"
  then obtain j where j: "ds = client_events (srv s) (srv t) j"
      "\<forall>k. k \<noteq> j \<longrightarrow> client_events (srv s) (srv t) k = []" by (auto simp: emits_def)
  have "ds = client_events (srv s) (srv t) i" using j assms by (cases "j = i") (simp_all add: follows_def)
  with assms show "performs perform ds (service_at (srv s)) = Some (service_at (srv t))" by (simp add: follows_def)
qed

lemma client_events_same:
  "\<lbrakk>conns q (pool_addr i) = conns p (pool_addr i); items (reg (env q)) i = items (reg (env p)) i\<rbrakk> \<Longrightarrow>
     client_events p q i = []"
  by (auto simp: client_events_def conn_events_def item_events_def split: option.split slot.split)

lemma follows_same:
  "\<lbrakk>conns q = conns p; reg (env q) = reg (env p)\<rbrakk> \<Longrightarrow> follows i p q"
  by (simp add: follows_def client_events_same service_at_def)

lemma follows_reg:
  assumes "conns q = conns p" "reg (env q) = reg (env r)" "follows i p r" "conns r = conns p"
  shows "follows i p q"
proof -
  have "client_events p q j = client_events p r j" for j
    using assms(1,2,4) by (simp add: client_events_def conn_events_def item_events_def)
  moreover have "service_at q = service_at r" using assms(1,2,4) by (simp add: service_at_def)
  ultimately show ?thesis using assms(3) by (simp add: follows_def)
qed

section \<open>The operations\<close>

lemma items_clear: "items (snd (registry_clear i r)) =
    (case items r i of Some (Owned x) \<Rightarrow> (items r)(i \<mapsto> Void) | _ \<Rightarrow> items r)"
  by (auto simp: registry_clear_def split: option.split slot.split)

lemma routes_clear:
  assumes "registry_ok r"
  shows "hosts (snd (registry_clear i r)) = drop_routes i (hosts r)"
  by (rule ext) (simp add: hosts_registry_clear drop_routes_def registry_okD [OF assms])

lemma routes_unsubscribe:
  assumes "registry_ok r"
  shows "hosts (snd (unsubscribe i r)) = drop_routes i (hosts r)"
  by (rule ext) (simp add: hosts_unsubscribe drop_routes_def registry_okD [OF assms])

lemma directory_clear_Some:
  "directory_of (snd (registry_clear i r)) =
     (if directory_of r i = None then directory_of r else (directory_of r)(i := Some None))"
  by (rule ext) (auto simp: directory_clear split: option.split)

lemma service_at_closed:
  assumes "registry_ok (reg (env p))" "conns p (pool_addr i) = Some cp"
  shows "perform (Left i) (service_at p) = Some (service_at (pool_close uni (Some released) cq (pool_addr i) p))"
  using assms(2)
  by (auto simp: service_at_def pool_close_env routes_clear [OF assms(1)] directory_clear_Some fun_eq_iff)

text \<open>What closing does to the items is no event.\<close>

lemma item_events_closed:
  "item_events p (pool_close uni (Some released) cq (pool_addr i) q) j = item_events p q j
    \<or> item_events p (pool_close uni (Some released) cq (pool_addr i) q) j = []"
  if "items (reg (env q)) = items (reg (env p))"
  using that by (auto simp: item_events_def pool_close_env items_clear split: option.split slot.split)

lemma item_events_None: "items (reg (env q)) = items (reg (env p)) \<Longrightarrow> item_events p q j = []"
  by (auto simp: item_events_def split: option.split slot.split)

lemma follows_close:
  assumes "registry_ok (reg (env p))" "conns p (pool_addr i) = Some cp"
  shows "follows i p (pool_close uni (Some released) cq (pool_addr i) p)" (is "follows i p ?q")
proof -
  have items: "item_events p ?q j = []" for j
    using item_events_closed [of p p uni cq i j] item_events_None [of p p] by auto
  then have "client_events p ?q i = [Left i]" using assms(2) by (simp add: client_events_def conn_events_def)
  moreover have "client_events p ?q j = []" if "j \<noteq> i" for j
    using items that by (simp add: client_events_def conn_events_def)
  ultimately show ?thesis using service_at_closed [OF assms, of uni cq] by (simp add: follows_def)
qed

lemma follows_close_any:
  assumes "registry_ok (reg (env p))" "pool_ok p" "conns p a = Some cp"
  shows "\<exists>i. follows i p (pool_close uni (Some released) cq a p)"
proof -
  obtain i where "a = pool_addr i" using pool_ok_key [OF assms(2,3)] ..
  with assms follows_close show ?thesis by blast
qed

lemma follows_evict:
  "\<lbrakk>registry_ok (reg (env p)); pool_ok p\<rbrakk> \<Longrightarrow> \<exists>i. follows i p (pool_evict uni (Some released) cc a p)"
  by (auto simp: pool_evict_def follows_close_any follows_same split: option.split)

lemma follows_delete:
  "\<lbrakk>registry_ok (reg (env p)); pool_ok p\<rbrakk> \<Longrightarrow> \<exists>j. follows j p (delete_conn uni (Some released) i p)"
  by (auto simp: delete_conn_def Let_def follows_close_any follows_same split: option.split)

lemma follows_dead:
  "\<lbrakk>registry_ok (reg (env p)); pool_ok p\<rbrakk> \<Longrightarrow> \<exists>i. follows i p (mark_dead uni (Some released) cc order p)"
  by (induction uni "Some released" cc order p rule: mark_dead.induct)
    (auto simp: follows_close_any follows_same split: option.split)

text \<open>A new connection of a client, alone or after the old one has been closed.\<close>

lemma follows_put:
  assumes "conns p (pool_addr i) = None"
  shows "follows i p (snd (put_conn ncc c (pool_addr i) p))"
proof (cases ncc)
  case (Inr cc)
  let ?q = "p\<lparr>conns := (conns p)(pool_addr i \<mapsto> \<lparr>conn = c, client_conn = cc\<rparr>)\<rparr>"
  have "client_events p ?q i = [Joined i c]"
    using assms by (simp add: client_events_def conn_events_def item_events_None)
  moreover have "client_events p ?q j = []" if "j \<noteq> i" for j using that by (simp add: client_events_same)
  moreover have "perform (Joined i c) (service_at p) = Some (service_at ?q)"
    using assms by (auto simp: service_at_def)
  ultimately show ?thesis using Inr by (simp add: put_conn_def follows_def)
qed (simp add: put_conn_def follows_same)

lemma follows_replace:
  assumes "registry_ok (reg (env p))" "conns p (pool_addr i) = Some cp" "fresh_client ncc p"
  shows "follows i p (snd (put_conn ncc c (pool_addr i) (pool_close uni (Some released) cp (pool_addr i) p)))"
proof (cases ncc)
  case (Inl e)
  with follows_reg [OF _ _ follows_close [OF assms(1,2), of uni cp]] show ?thesis
    using follows_close [OF assms(1,2), of uni cp]
    by (simp add: put_conn_def follows_def client_events_def conn_events_def item_events_def service_at_def)
next
  case (Inr cc)
  let ?p = "pool_close uni (Some released) cp (pool_addr i) p"
  let ?q = "?p\<lparr>conns := (conns ?p)(pool_addr i \<mapsto> \<lparr>conn = c, client_conn = cc\<rparr>)\<rparr>"
  have "client_conn cp \<noteq> cc" using assms(2,3) Inr by (auto simp: fresh_client_def)
  then have new: "cp \<noteq> \<lparr>conn = c, client_conn = cc\<rparr>" by auto
  have items: "item_events p ?q j = []" for j
    using item_events_closed [of p p uni cp i j] item_events_None [of p p] by (auto simp: item_events_def)
  have "client_events p ?q i = [Left i, Joined i c]"
    using assms(2) new items by (auto simp: client_events_def conn_events_def)
  moreover have "client_events p ?q j = []" if "j \<noteq> i" for j
    using items that by (simp add: client_events_def conn_events_def)
  moreover have "perform (Joined i c) (service_at ?p) = Some (service_at ?q)" by (auto simp: service_at_def)
  ultimately show ?thesis
    using Inr service_at_closed [OF assms(1,2), of uni cp] by (simp add: put_conn_def follows_def del: perform.simps)
qed

lemma follows_add:
  assumes "registry_ok (reg (env p))" "fresh_client ncc p"
    and "add_conn uni (Some released) png ncc c i p = (r, q)"
  shows "follows i p q"
proof -
  have "follows i p (snd (add_conn uni (Some released) png ncc c i p))"
    using follows_replace [OF assms(1) _ assms(2)] follows_put [of p i]
    by (auto simp: add_conn_def Let_def follows_same split: option.split)
  with assms(3) show ?thesis by simp
qed

text \<open>The operations of the registry.\<close>

lemma follows_subscribe: "follows i p (p\<lparr>env := (env p)\<lparr>reg := subscribe i (reg (env p))\<rparr>\<rparr>)" (is "follows i p ?q")
proof (cases "items (reg (env p)) i")
  case None
  then have "client_events p ?q i = [Allowed i]"
    by (simp add: client_events_def conn_events_def item_events_def subscribe_def)
  moreover have "client_events p ?q j = []" if "j \<noteq> i" for j
    using that None by (simp add: client_events_same subscribe_def)
  moreover have "directory_of (reg (env p)) i = None" using None by (simp add: directory_of_def)
  then have "perform (Allowed i) (service_at p) = Some (service_at ?q)"
    by (simp add: service_at_def directory_subscribe dir_subscribe_def)
  ultimately show ?thesis by (simp add: follows_def)
next
  case (Some x)
  then show ?thesis by (intro follows_same) (simp_all add: subscribe_def)
qed

lemma follows_unsubscribe:
  assumes "registry_ok (reg (env p))"
  shows "follows i p (p\<lparr>env := (env p)\<lparr>reg := snd (unsubscribe i (reg (env p)))\<rparr>\<rparr>)" (is "follows i p ?q")
proof (cases "items (reg (env p)) i")
  case None
  then show ?thesis by (intro follows_same) (simp_all add: unsubscribe_def)
next
  case (Some x)
  have items: "items (reg (env ?q)) = (items (reg (env p)))(i := None)"
    by (simp add: unsubscribe_def Some)
  then have "client_events p ?q i = [Removed i]"
    using Some by (simp add: client_events_def conn_events_def item_events_def split: slot.split)
  moreover have "client_events p ?q j = []" if "j \<noteq> i" for j
    using that items by (simp add: client_events_same)
  moreover have "directory_of (reg (env p)) i \<noteq> None" using Some by (simp add: directory_of_def)
  then have "perform (Removed i) (service_at p) = Some (service_at ?q)"
    by (simp add: service_at_def directory_unsubscribe routes_unsubscribe [OF assms])
  ultimately show ?thesis by (simp add: follows_def)
qed

lemma follows_set:
  assumes "registry_ok (reg (env p))" "registry_set y i (reg (env p)) = Inr r"
  shows "follows i p (p\<lparr>env := (env p)\<lparr>reg := r\<rparr>\<rparr>)" (is "follows i p ?q")
proof -
  note set = registry_set_Inr [OF assms(2)]
  have "client_events p ?q i = [Claimed i (item_keys y)]"
    using set(1,4) by (simp add: client_events_def conn_events_def item_events_def)
  moreover have "client_events p ?q j = []" if "j \<noteq> i" for j
    using that set(4) by (simp add: client_events_same)
  moreover have "directory_of (reg (env p)) i = Some None"
      "directory_of r = (directory_of (reg (env p)))(i := Some (Some (item_keys y)))"
    using directory_set [OF assms(1), where x = y and i = i] assms(2) by simp_all
  moreover have "hosts r = (\<lambda>k. if k \<in> item_keys y then Some i else hosts (reg (env p)) k)"
    by (rule ext) (rule set(3))
  ultimately show ?thesis using set(2) by (simp add: follows_def service_at_def cong: if_cong)
qed

section \<open>The steps\<close>

lemma push_begins_same:
  "push_begins x i m next p = (h, q) \<Longrightarrow> conns q = conns p \<and> reg (env q) = reg (env p)"
  by (auto simp: push_begins_def split: option.splits if_splits)

lemma add_conn_fails_fresh:
  "add_conn uni free png ncc c i p = (Some e, q) \<Longrightarrow> \<exists>ncc'. fresh_client ncc' p \<and>
     add_conn uni free png ncc' c i p = (Some e, q)"
  by (cases ncc)
    (auto simp: add_conn_def put_conn_def Let_def fresh_client_def split: option.splits if_splits
      intro: exI [of _ "Inl []"])

lemma handler_step_follows:
  assumes "handler_step uni lsn cfg c x h p h' q" "pool_ok p" "registry_ok (reg (env p))"
  shows "\<exists>i. follows i p q"
  using assms(1)
proof (cases rule: handler_step.cases)
  case (subscribed i)
  then show ?thesis using follows_subscribe by blast
next
  case (not_added i e q')
  obtain ncc where "fresh_client ncc p" "add_conn uni (Some released) (pings x) ncc c i p = (Some e, q')"
    using add_conn_fails_fresh [OF not_added(5)] by blast
  then have "follows i p q'" by (rule follows_add [OF assms(3)])
  then have "follows i p (close_conn c q')"
    by (simp add: follows_def client_events_def conn_events_def item_events_def service_at_def)
  with not_added show ?thesis by blast
next
  case (added i)
  then show ?thesis using follows_add [OF assms(3)] by blast
next
  case (evicts i cc)
  then show ?thesis using follows_evict [OF assms(3,2)] by simp
next
  case (sets y i r ts)
  then show ?thesis using follows_set [OF assms(3)] by blast
next
  case (informs hs ts i)
  then show ?thesis using push_begins_same follows_same by blast
next
  case (tells i e)
  then show ?thesis using push_begins_same follows_same by blast
next
  case (deletes i e)
  then show ?thesis using follows_delete [OF assms(3,2)] by simp
qed (simp_all add: follows_same close_listeners_def)

lemma system_step_follows:
  assumes "system_step uni lsn cfg s t" "crashed s \<or> system_ok s"
  shows "\<exists>i. follows i (srv s) (srv t)"
  using assms(1)
proof (cases rule: system_step.cases)
  case (moves c x h q)
  then have "pool_ok (srv s)" "registry_ok (reg (env (srv s)))" using assms(2) by (simp_all add: system_ok_def)
  from handler_step_follows [OF moves(3) this] moves(1) show ?thesis by (simp add: goes_def)
next
  case (allows i)
  then show ?thesis using follows_subscribe by auto
next
  case (unsubscribes i)
  then show ?thesis using assms(2) follows_unsubscribe by (auto simp: system_ok_def)
qed (use assms(2) follows_delete follows_dead follows_evict
  in \<open>auto simp: goes_def system_ok_def close_closing_def follows_same\<close>)

interpretation server_impl: traced_simulation "\<lambda>s. s = new_system"
    "\<lambda>s t. fresh_listen lsn \<and> system_step uni lsn cfg s t" "\<lambda>s. crashed s \<or> system_ok s"
    emits "\<lambda>s. service_at (srv s)" perform
    for uni lsn cfg
  by unfold_locales (use system_step_follows follows_emits in blast)+

text \<open>
  C3: The server follows the service, however its goroutines interleave. Every run of any
  number of handlers next to \<open>Subscribe\<close>, \<open>Unsubscribe\<close>, dying connections and evictions has a
  trace of the connections that come and go, the clients that are let in and removed, and the
  names that are claimed; the service allows each of these events when it happens; and
  performing them leads to exactly the clients, names, routes and connections the server has.
  So a client that leaves loses its names and routes with its connection and nothing else
  takes them, only a subscribed client without names claims any, none of which leads anywhere,
  and nobody takes the place of a client that is connected.
\<close>

theorem server_refines_service:
  assumes "fresh_listen lsn" and "(system_step uni lsn cfg)\<^sup>*\<^sup>* new_system s"
  shows "(\<exists>es. traced (system_step uni lsn cfg) emits new_system s es) \<and>
    (\<forall>es. traced (system_step uni lsn cfg) emits new_system s es \<longrightarrow>
       performs perform es new_service = Some (service_at (srv s)))"
proof -
  have step: "(\<lambda>s t. fresh_listen lsn \<and> system_step uni lsn cfg s t) = system_step uni lsn cfg"
    using assms(1) by simp
  have "service_at (srv new_system) = new_service" by (simp add: new_system_def service_at_new)
  with server_impl.runs_traced [of new_system lsn uni cfg s] server_impl.traces_perform [of new_system lsn uni cfg s]
    assms(2) show ?thesis unfolding step by simp
qed

text \<open>The run that leaves a registration behind: allowed, joined, left, and only then claimed.\<close>

theorem server_refines_service_witness:
  "\<exists>es. performs perform es new_service = Some \<lparr>names = directory_of (reg orphan_world),
     routes = [''app.example.com'' \<mapsto> zero_ID], online = Map.empty\<rparr>"
proof -
  have "service_at (srv orphaned) = \<lparr>names = directory_of (reg orphan_world),
      routes = [''app.example.com'' \<mapsto> zero_ID], online = Map.empty\<rparr>"
    by (simp add: service_at_def orphaned_def orphaning_def orphan_world_def)
  then show ?thesis
    using server_refines_service [OF sample_listen_fresh orphaned_reachable] by auto
qed

end
