(* ===== verification/ProxyConn.thy ===== *)
theory ProxyConn
  imports Prelude "HOL-Library.Sublist"
begin

text \<open>
  The two directions of \<open>proxyConn\<close> (server.go) and what ties them together: a goroutine
  copies from the user to the client and, when it is done, cancels the request; the handler
  waits for the response, copies it to the user, waits for the goroutine or a timeout, and
  closes everything. Both copies read a chunk, write it, and do not read on before all of it
  is written; a write waits for room on the other side. How the connection of the request is
  found is in \<open>ServerHttp\<close>.
\<close>

section \<open>The state\<close>

text \<open>
  The handler is at its request, copying the response back, waiting for \<open>done\<close>, or has
  returned.

  \<^item> From the user: \<open>user_bytes\<close> is all the user has sent, \<open>user_queue\<close> what of it is not yet
    read, \<open>up_held\<close> what the goroutine has read and not yet written, \<open>up_stream\<close> what the pipe
    and the stream hold, and \<open>client_got\<close> what the client has taken. \<open>up_refused\<close> says that
    the transport has refused a write since the client had ended the stream.
  \<^item> To the user: \<open>client_bytes\<close> is all the client has sent, \<open>down_stream\<close> what the stream holds,
    \<open>down_held\<close> what the handler has read and not yet written, \<open>user_socket\<close> what waits in the
    user's connection, and \<open>user_got\<close> what the user has taken.
  \<^item> \<open>user_done\<close> and \<open>client_done\<close>: the end has closed its sending side. \<open>user_left\<close>: the user
    has closed the connection altogether.
\<close>

datatype phase = Requesting | CopyingBack | AwaitingDone | Finished "string option"

record carry =
  phase :: phase
  user_bytes :: string
  user_queue :: string
  user_done :: bool
  user_left :: bool
  up_running :: bool
  up_held :: string
  up_stream :: string
  client_got :: string
  up_refused :: bool
  client_bytes :: string
  down_stream :: string
  client_done :: bool
  down_held :: string
  user_socket :: string
  user_got :: string
  cancelled :: bool
  user_closed :: bool

definition new_carry :: carry where
  "new_carry = \<lparr>phase = Requesting, user_bytes = [], user_queue = [], user_done = False, user_left = False,
     up_running = True, up_held = [], up_stream = [], client_got = [], up_refused = False,
     client_bytes = [], down_stream = [], client_done = False, down_held = [], user_socket = [], user_got = [],
     cancelled = False, user_closed = False\<rparr>"

text \<open>The end of the first \<open>transfer\<close> with the \<open>cancel\<close> after it, and the deferred calls.\<close>

definition carry_up_end :: "carry \<Rightarrow> carry" where
  "carry_up_end s = s\<lparr>up_running := False, cancelled := True\<rparr>"

definition carry_return :: "string option \<Rightarrow> carry \<Rightarrow> carry" where
  "carry_return err s = s\<lparr>phase := Finished err, cancelled := True, user_closed := True\<rparr>"

section \<open>The steps\<close>

text \<open>
  Steps of the two ends, of the goroutine and of the handler. \<open>room\<close> bounds what the stream
  holds in each direction (the flow-control window and the transport's buffer) and what the
  user's socket holds: a write that finds no room waits. The response begins with the first
  byte the client writes or with its end. Steps that need a failure of the network or of the
  transport are only taken if \<open>faults\<close> is true; that a user who has left takes no more bytes,
  and that a client which has ended the stream takes no more, are no faults.
\<close>

inductive carry_step :: "bool \<Rightarrow> nat \<Rightarrow> carry \<Rightarrow> carry \<Rightarrow> bool" for faults :: bool and room :: nat where
  user_write: "\<lbrakk>\<not> user_done s; bs \<noteq> []\<rbrakk> \<Longrightarrow>
    carry_step faults room s (s\<lparr>user_bytes := user_bytes s @ bs, user_queue := user_queue s @ bs\<rparr>)"
| user_close: "\<not> user_done s \<Longrightarrow> carry_step faults room s (s\<lparr>user_done := True\<rparr>)"
| user_leave: "\<not> user_left s \<Longrightarrow> carry_step faults room s (s\<lparr>user_done := True, user_left := True\<rparr>)"
| user_takes: "\<lbrakk>\<not> user_left s; user_socket s = bs @ rest; bs \<noteq> []\<rbrakk> \<Longrightarrow>
    carry_step faults room s (s\<lparr>user_socket := rest, user_got := user_got s @ bs\<rparr>)"
| client_write: "\<lbrakk>\<not> client_done s; bs \<noteq> []; length (down_stream s) + length bs \<le> room\<rbrakk> \<Longrightarrow>
    carry_step faults room s (s\<lparr>client_bytes := client_bytes s @ bs, down_stream := down_stream s @ bs\<rparr>)"
| client_close: "\<not> client_done s \<Longrightarrow> carry_step faults room s (s\<lparr>client_done := True\<rparr>)"
| client_takes: "\<lbrakk>up_stream s = bs @ rest; bs \<noteq> []\<rbrakk> \<Longrightarrow>
    carry_step faults room s (s\<lparr>up_stream := rest, client_got := client_got s @ bs\<rparr>)"
| up_read: "\<lbrakk>up_running s; \<not> user_closed s; up_held s = []; user_queue s = bs @ rest; bs \<noteq> []\<rbrakk> \<Longrightarrow>
    carry_step faults room s (s\<lparr>user_queue := rest, up_held := bs\<rparr>)"
| up_write: "\<lbrakk>up_running s; \<not> user_closed s; up_held s = bs @ rest; bs \<noteq> [];
      length (up_stream s) + length bs \<le> room\<rbrakk> \<Longrightarrow>
    carry_step faults room s (s\<lparr>up_held := rest, up_stream := up_stream s @ bs\<rparr>)"
| up_eof: "\<lbrakk>up_running s; up_held s = []; user_queue s = []; user_done s\<rbrakk> \<Longrightarrow>
    carry_step faults room s (carry_up_end s)"
| up_refused: "\<lbrakk>up_running s; up_held s \<noteq> []; client_done s\<rbrakk> \<Longrightarrow>
    carry_step faults room s (carry_up_end (s\<lparr>up_refused := True\<rparr>))"
| up_closed: "\<lbrakk>up_running s; user_closed s\<rbrakk> \<Longrightarrow> carry_step faults room s (carry_up_end s)"
| up_fails: "\<lbrakk>faults; up_running s\<rbrakk> \<Longrightarrow> carry_step faults room s (carry_up_end s)"
| responds: "\<lbrakk>phase s = Requesting; client_bytes s \<noteq> [] \<or> client_done s\<rbrakk> \<Longrightarrow>
    carry_step faults room s (s\<lparr>phase := CopyingBack\<rparr>)"
| request_cancelled: "\<lbrakk>phase s = Requesting; cancelled s\<rbrakk> \<Longrightarrow>
    carry_step faults room s (carry_return (Some ''io error: context canceled'') s)"
| request_fails: "\<lbrakk>faults; phase s = Requesting\<rbrakk> \<Longrightarrow>
    carry_step faults room s (carry_return (Some (''io error: '' @ err)) s)"
| down_read: "\<lbrakk>phase s = CopyingBack; down_held s = []; down_stream s = bs @ rest; bs \<noteq> []\<rbrakk> \<Longrightarrow>
    carry_step faults room s (s\<lparr>down_stream := rest, down_held := bs\<rparr>)"
| down_write: "\<lbrakk>phase s = CopyingBack; down_held s = bs @ rest; bs \<noteq> [];
      length (user_socket s) + length bs \<le> room\<rbrakk> \<Longrightarrow>
    carry_step faults room s (s\<lparr>down_held := rest, user_socket := user_socket s @ bs\<rparr>)"
| down_eof: "\<lbrakk>phase s = CopyingBack; down_held s = []; down_stream s = []; client_done s\<rbrakk> \<Longrightarrow>
    carry_step faults room s (s\<lparr>phase := AwaitingDone\<rparr>)"
| down_cancelled: "\<lbrakk>phase s = CopyingBack; down_held s = []; cancelled s\<rbrakk> \<Longrightarrow>
    carry_step faults room s (s\<lparr>phase := AwaitingDone\<rparr>)"
| down_refused: "\<lbrakk>phase s = CopyingBack; down_held s \<noteq> []; user_left s\<rbrakk> \<Longrightarrow>
    carry_step faults room s (s\<lparr>phase := AwaitingDone\<rparr>)"
| down_fails: "\<lbrakk>faults; phase s = CopyingBack\<rbrakk> \<Longrightarrow> carry_step faults room s (s\<lparr>phase := AwaitingDone\<rparr>)"
| up_finished: "\<lbrakk>phase s = AwaitingDone; \<not> up_running s\<rbrakk> \<Longrightarrow> carry_step faults room s (carry_return None s)"
| timeout: "phase s = AwaitingDone \<Longrightarrow> carry_step faults room s (carry_return None s)"

section \<open>What is carried\<close>

text \<open>
  What holds in every state. Nothing is lost, doubled or reordered on the way. Without faults
  a request is only cancelled because the user has closed the sending side, the client had
  ended before the user's last bytes, or the handler has returned; and the copy back ends
  with the whole response or by that.
\<close>

definition in_transit :: "carry \<Rightarrow> bool" where
  "in_transit s \<longleftrightarrow>
     user_bytes s = client_got s @ up_stream s @ up_held s @ user_queue s \<and>
     client_bytes s = user_got s @ user_socket s @ down_held s @ down_stream s"

definition carry_ok :: "bool \<Rightarrow> carry \<Rightarrow> bool" where
  "carry_ok faults s \<longleftrightarrow> in_transit s \<and>
     (user_closed s \<longleftrightarrow> (\<exists>err. phase s = Finished err)) \<and>
     (up_running s \<or> cancelled s) \<and>
     (user_left s \<longrightarrow> user_done s) \<and>
     (up_refused s \<longrightarrow> client_done s) \<and>
     (\<not> faults \<longrightarrow> cancelled s \<longrightarrow> user_done s \<or> up_refused s \<or> user_closed s) \<and>
     (\<not> faults \<longrightarrow> phase s = AwaitingDone \<or> user_closed s \<longrightarrow>
        user_done s \<or> up_refused s \<or> client_done s \<and> down_held s = [] \<and> down_stream s = [])"

lemma carry_ok_new [inv_intros]: "carry_ok faults new_carry"
  by (simp add: carry_ok_def in_transit_def new_carry_def)

lemma in_transit_step: "carry_step faults room s t \<Longrightarrow> in_transit s \<Longrightarrow> in_transit t"
  by (induction rule: carry_step.induct) (simp_all add: in_transit_def carry_up_end_def carry_return_def)

lemma carry_ok_step [inv_intros]:
  assumes "carry_step faults room s t" "carry_ok faults s"
  shows "carry_ok faults t"
proof -
  have "in_transit t" using in_transit_step [OF assms(1)] assms(2) by (simp add: carry_ok_def)
  with assms show ?thesis
    by (cases rule: carry_step.cases) (simp_all add: carry_ok_def carry_up_end_def carry_return_def, blast+)
qed

interpretation carried: invariant_system "\<lambda>s. s = new_carry" "carry_step faults room" "carry_ok faults"
  for faults room
  by unfold_locales (auto intro: inv_intros)

text \<open>
  Both directions carry bytes in order, without loss or repetition, however the two
  goroutines interleave and whatever fails.
\<close>

lemma carried_in_order:
  assumes "(carry_step faults room)\<^sup>*\<^sup>* new_carry s"
  shows "prefix (client_got s) (user_bytes s)" "prefix (user_got s @ user_socket s) (client_bytes s)"
  using carried.reachable_inv [OF refl assms] by (simp_all add: carry_ok_def in_transit_def)

text \<open>\<open>response_lost\<close>: not all of the response has been written to the user's connection.\<close>

definition response_lost :: "carry \<Rightarrow> bool" where
  "response_lost s \<longleftrightarrow> \<not> (client_done s \<and> user_got s @ user_socket s = client_bytes s)"

lemma carry_steps:
  "carry_step faults room s t \<Longrightarrow> (carry_step faults room)\<^sup>*\<^sup>* t u \<Longrightarrow> (carry_step faults room)\<^sup>*\<^sup>* s u"
  by (rule converse_rtranclp_into_rtranclp)

section \<open>A half-closed connection\<close>

text \<open>From the end of the user's input to the closing of the connection, with nothing read on the way.\<close>

lemma half_closed_run:
  assumes "user_done s" "user_queue s = []" "up_held s = []" "up_running s" "down_held s = []"
    and "phase s = Requesting \<or> phase s = CopyingBack"
  shows "\<exists>t. (carry_step False room)\<^sup>*\<^sup>* s t \<and> user_closed t \<and> user_got t @ user_socket t = user_got s @ user_socket s \<and>
    client_bytes t = client_bytes s \<and> client_done t = client_done s"
proof -
  let ?a = "carry_up_end s"
  have a: "carry_step False room s ?a" using assms by (intro up_eof) simp_all
  from assms(6) show ?thesis
  proof
    assume "phase s = Requesting"
    then have "carry_step False room ?a (carry_return (Some ''io error: context canceled'') ?a)"
      by (intro request_cancelled) (simp_all add: carry_up_end_def)
    then have "(carry_step False room)\<^sup>*\<^sup>* s (carry_return (Some ''io error: context canceled'') ?a)"
      by (rule carry_steps [OF a r_into_rtranclp])
    moreover have "user_closed (carry_return e ?a)" "user_got (carry_return e ?a) = user_got s"
        "user_socket (carry_return e ?a) = user_socket s" "client_bytes (carry_return e ?a) = client_bytes s"
        "client_done (carry_return e ?a) = client_done s" for e
      by (simp_all add: carry_return_def carry_up_end_def)
    ultimately show ?thesis by metis
  next
    assume "phase s = CopyingBack"
    let ?b = "?a\<lparr>phase := AwaitingDone\<rparr>"
    have b: "carry_step False room ?a ?b"
      using \<open>phase s = CopyingBack\<close> assms(5) by (intro down_cancelled) (simp_all add: carry_up_end_def)
    have "carry_step False room ?b (carry_return None ?b)"
      by (rule up_finished) (simp_all add: carry_up_end_def)
    then have "(carry_step False room)\<^sup>*\<^sup>* s (carry_return None ?b)"
      by (rule carry_steps [OF a carry_steps [OF b r_into_rtranclp]])
    moreover have "user_closed (carry_return None ?b)" "user_got (carry_return None ?b) = user_got s"
        "user_socket (carry_return None ?b) = user_socket s" "client_bytes (carry_return None ?b) = client_bytes s"
        "client_done (carry_return None ?b) = client_done s"
      by (simp_all add: carry_return_def carry_up_end_def)
    ultimately show ?thesis by metis
  qed
qed

text \<open>
  C28: A user who closes the sending side after the request, as the end of the input, can lose
  the response although nothing fails: the goroutine takes the end of the input for the end of
  the connection and cancels the request. From every state in which the user has closed the
  sending side and all the user sent has been copied, while the request or the copy of the
  response is under way, the connection can end with not one byte more written to the user,
  however much of the response is on its way. And without faults this is the only way to lose
  it, but for a client that ends the response before it has taken all the user sent: whenever
  the connection has been closed and something of the response was not written, the user had
  closed the sending side, or a write to the client's stream had been refused.
\<close>

theorem half_close_loses_response:
  assumes "(carry_step False room)\<^sup>*\<^sup>* new_carry s"
  shows "(user_done s \<and> user_queue s = [] \<and> up_held s = [] \<and> up_running s \<and> down_held s = [] \<and>
      (phase s = Requesting \<or> phase s = CopyingBack) \<longrightarrow>
      (\<exists>t. (carry_step False room)\<^sup>*\<^sup>* s t \<and> user_closed t \<and>
        user_got t @ user_socket t = user_got s @ user_socket s \<and>
        client_bytes t = client_bytes s \<and> client_done t = client_done s)) \<and>
    (user_closed s \<and> response_lost s \<longrightarrow> user_done s \<or> up_refused s)"
  using half_closed_run [of s room] carried.reachable_inv [OF refl assms]
  by (auto simp: carry_ok_def in_transit_def response_lost_def)

text \<open>The client has answered and closed, the user has closed the sending side, nothing is copied back yet.\<close>

definition answered :: carry where
  "answered = new_carry\<lparr>user_bytes := ''ping'', client_got := ''ping'', user_done := True,
     client_bytes := ''pong'', down_stream := ''pong'', client_done := True, phase := CopyingBack\<rparr>"

lemma answered_reachable: "(carry_step False 8)\<^sup>*\<^sup>* new_carry answered"
proof -
  let ?a = "new_carry\<lparr>user_bytes := ''ping'', user_queue := ''ping''\<rparr>"
  let ?b = "?a\<lparr>user_queue := [], up_held := ''ping''\<rparr>"
  let ?c = "?b\<lparr>up_held := [], up_stream := ''ping''\<rparr>"
  let ?d = "?c\<lparr>up_stream := [], client_got := ''ping''\<rparr>"
  let ?e = "?d\<lparr>client_bytes := ''pong'', down_stream := ''pong''\<rparr>"
  let ?f = "?e\<lparr>client_done := True\<rparr>"
  let ?g = "?f\<lparr>phase := CopyingBack\<rparr>"
  note simps = new_carry_def answered_def
  have "carry_step False 8 new_carry ?a"
    using user_write [of new_carry "''ping''" False 8] by (simp add: simps)
  moreover have "carry_step False 8 ?a ?b"
    using up_read [of ?a "''ping''" "[]" False 8] by (simp add: simps)
  moreover have "carry_step False 8 ?b ?c"
    using up_write [of ?b "''ping''" "[]" 8 False] by (simp add: simps)
  moreover have "carry_step False 8 ?c ?d"
    using client_takes [of ?c "''ping''" "[]" False 8] by (simp add: simps)
  moreover have "carry_step False 8 ?d ?e"
    using client_write [of ?d "''pong''" 8 False] by (simp add: simps)
  moreover have "carry_step False 8 ?e ?f" using client_close [of ?e False 8] by (simp add: simps)
  moreover have "carry_step False 8 ?f ?g" using responds [of ?f False 8] by (simp add: simps)
  moreover have "carry_step False 8 ?g answered" using user_close [of ?g False 8] by (simp add: simps)
  ultimately show ?thesis by (meson carry_steps rtranclp.rtrancl_refl)
qed

theorem half_close_loses_response_witness:
  "\<exists>t. (carry_step False 8)\<^sup>*\<^sup>* answered t \<and> user_closed t \<and> user_got t @ user_socket t = [] \<and>
     client_bytes t = ''pong'' \<and> client_done t"
  using half_close_loses_response [OF answered_reachable] by (simp add: answered_def new_carry_def)

section \<open>A user who leaves\<close>

text \<open>
  What happens without new input: the goroutine and the handler go on, and the two ends take
  what is sent to them.
\<close>

definition carry_works :: "nat \<Rightarrow> carry \<Rightarrow> carry \<Rightarrow> bool" where
  "carry_works room s t \<longleftrightarrow> carry_step False room s t \<and> user_bytes t = user_bytes s \<and> user_done t = user_done s \<and>
     user_left t = user_left s \<and> client_bytes t = client_bytes s \<and> client_done t = client_done s"

primrec phases_left :: "phase \<Rightarrow> nat" where
  "phases_left Requesting = 3"
| "phases_left CopyingBack = 2"
| "phases_left AwaitingDone = 1"
| "phases_left (Finished err) = 0"

text \<open>How often the bytes still have to be passed on.\<close>

definition bytes_left :: "carry \<Rightarrow> nat" where
  "bytes_left s = 3 * length (user_queue s) + 2 * length (up_held s) + length (up_stream s) +
     3 * length (down_stream s) + 2 * length (down_held s) + length (user_socket s)"

definition works_measures :: "(carry \<Rightarrow> nat) list" where
  "works_measures = [\<lambda>s. phases_left (phase s), \<lambda>s. if up_running s then 1 else 0, bytes_left]"

lemma carry_works_decreases:
  assumes "carry_works room s t"
  shows "(t, s) \<in> measures works_measures"
proof -
  from assms have step: "carry_step False room s t" and ends: "user_bytes t = user_bytes s"
      "user_done t = user_done s" "user_left t = user_left s" "client_bytes t = client_bytes s"
      "client_done t = client_done s"
    by (simp_all add: carry_works_def)
  from step show ?thesis
  proof (cases rule: carry_step.cases)
    case user_leave
    with ends(3) show ?thesis by simp
  qed (use ends in \<open>simp_all add: works_measures_def bytes_left_def carry_up_end_def carry_return_def\<close>)
qed

lemma wf_carry_works: "wf {(t, s). carry_works room s t}"
  by (rule wf_subset [OF wf_measures [of works_measures]]) (auto dest: carry_works_decreases)

lemma carry_worksI:
  assumes "carry_step False room s t"
    and "user_bytes t = user_bytes s" "user_done t = user_done s" "user_left t = user_left s"
    and "client_bytes t = client_bytes s" "client_done t = client_done s"
  shows "\<exists>t. carry_works room s t"
  using assms by (auto simp: carry_works_def)

text \<open>The goroutine can go on as long as the client takes what is in the stream.\<close>

lemma up_progress:
  assumes "up_running s" "\<not> user_closed s" "user_done s" "0 < room"
  shows "\<exists>t. carry_works room s t"
proof (cases "up_held s")
  case Nil
  show ?thesis
  proof (cases "user_queue s = []")
    case True
    with Nil assms show ?thesis by (intro carry_worksI [OF up_eof]) (simp_all add: carry_up_end_def)
  next
    case False
    with Nil assms show ?thesis by (intro carry_worksI [OF up_read [where rest = "[]"]]) simp_all
  qed
next
  case (Cons b rest)
  show ?thesis
  proof (cases "length (up_stream s) < room")
    case True
    with Cons assms show ?thesis
      by (intro carry_worksI [OF up_write [where bs = "[b]" and rest = rest]]) simp_all
  next
    case False
    with assms(4) have "up_stream s \<noteq> []" by auto
    then show ?thesis by (intro carry_worksI [OF client_takes [where rest = "[]"]]) simp_all
  qed
qed

text \<open>The copy back can go on as long as the user takes what is in the socket, or has left.\<close>

lemma down_progress:
  assumes "phase s = CopyingBack" "cancelled s" "0 < room"
  shows "\<exists>t. carry_works room s t"
proof (cases "down_held s")
  case Nil
  with assms show ?thesis by (intro carry_worksI [OF down_cancelled]) simp_all
next
  case (Cons b rest)
  show ?thesis
  proof (cases "length (user_socket s) < room")
    case True
    with Cons assms show ?thesis
      by (intro carry_worksI [OF down_write [where bs = "[b]" and rest = rest]]) simp_all
  next
    case False
    with assms(3) have "user_socket s \<noteq> []" by auto
    with Cons assms(1) show ?thesis
      by (cases "user_left s")
        (intro carry_worksI [OF down_refused] carry_worksI [OF user_takes [where rest = "[]"]]; simp)+
  qed
qed

lemma carry_works_progress:
  assumes "carry_ok False s" "user_done s" "0 < room" "\<nexists>err. phase s = Finished err"
  shows "\<exists>t. carry_works room s t"
proof (cases "phase s = AwaitingDone")
  case True
  then show ?thesis by (intro carry_worksI [OF timeout]) (simp_all add: carry_return_def)
next
  case False
  from assms(1,4) have "\<not> user_closed s" "up_running s \<or> cancelled s" by (simp_all add: carry_ok_def)
  then consider "up_running s" | "cancelled s" by blast
  then show ?thesis
  proof cases
    case 1
    with up_progress \<open>\<not> user_closed s\<close> assms show ?thesis by blast
  next
    case 2
    from False assms(4) consider "phase s = Requesting" | "phase s = CopyingBack" by (cases "phase s") auto
    then show ?thesis
    proof cases
      case 1
      with 2 show ?thesis by (intro carry_worksI [OF request_cancelled]) (simp_all add: carry_return_def)
    qed (use down_progress 2 assms(3) in blast)
  qed
qed

lemma carry_works_runs:
  assumes "(carry_works room)\<^sup>*\<^sup>* s t"
  shows "(carry_step False room)\<^sup>*\<^sup>* s t \<and> user_done t = user_done s"
  using assms
proof (induction rule: rtranclp_induct)
  case (step t u)
  then show ?case by (auto simp: carry_works_def intro: rtranclp.rtrancl_into_rtrancl)
qed simp

text \<open>
  C10: A user who leaves is let go, as long as both ends take what is sent to them and nothing
  fails. Once the user has closed the sending side, whatever state the connection is in, and
  however the goroutine, the handler and the taking of bytes by the two ends go on without new
  input, they come to an end after finitely many steps, and they end nowhere but in the
  return of \<open>proxyConn\<close>: no buffer that is full, no chunk that is held back and no response
  that never comes stops it. A user who has left altogether need not take anything.
\<close>

theorem leaving_user_is_let_go:
  assumes "(carry_step False room)\<^sup>*\<^sup>* new_carry s" and "user_done s" and "0 < room"
    and "(carry_works room)\<^sup>*\<^sup>* s t"
  shows "wf {(v, u). carry_works room u v} \<and> ((\<exists>err. phase t = Finished err) \<or> (\<exists>u. carry_works room t u))"
proof -
  from carry_works_runs [OF assms(4)] assms(1,2)
  have t: "(carry_step False room)\<^sup>*\<^sup>* new_carry t" "user_done t" by auto
  from carry_works_progress [OF carried.reachable_inv [OF refl t(1)] t(2) assms(3)] show ?thesis
    using wf_carry_works by blast
qed

text \<open>The user has left, with a byte in the stream, a byte held and no room: \<open>stuffed\<close>.\<close>

definition stuffed :: carry where
  "stuffed = new_carry\<lparr>user_bytes := ''ab'', up_held := ''b'', up_stream := ''a'', user_done := True, user_left := True\<rparr>"

lemma stuffed_reachable: "(carry_step False 1)\<^sup>*\<^sup>* new_carry stuffed"
proof -
  let ?a = "new_carry\<lparr>user_bytes := ''ab'', user_queue := ''ab''\<rparr>"
  let ?b = "?a\<lparr>user_queue := [], up_held := ''ab''\<rparr>"
  let ?c = "?b\<lparr>up_held := ''b'', up_stream := ''a''\<rparr>"
  note simps = new_carry_def stuffed_def
  have "carry_step False 1 new_carry ?a" using user_write [of new_carry "''ab''" False 1] by (simp add: simps)
  moreover have "carry_step False 1 ?a ?b" using up_read [of ?a "''ab''" "[]" False 1] by (simp add: simps)
  moreover have "carry_step False 1 ?b ?c" using up_write [of ?b "''a''" "''b''" 1 False] by (simp add: simps)
  moreover have "carry_step False 1 ?c stuffed" using user_leave [of ?c False 1] by (simp add: simps)
  ultimately show ?thesis by (meson carry_steps rtranclp.rtrancl_refl)
qed

theorem leaving_user_is_let_go_witness: "\<exists>u. carry_works 1 stuffed u"
  using leaving_user_is_let_go [OF stuffed_reachable _ _ rtranclp.rtrancl_refl]
  by (auto simp: stuffed_def new_carry_def)

section \<open>A client that does not read\<close>

text \<open>Steps in which the client neither takes nor sends anything.\<close>

definition client_idle :: "carry \<Rightarrow> carry \<Rightarrow> bool" where
  "client_idle s t \<longleftrightarrow> client_got t = client_got s \<and> client_bytes t = client_bytes s \<and> client_done t = client_done s"

text \<open>
  C5: A client that neither reads its stream nor answers hides from the server that the user
  has left. Once the stream has no room for the chunk the goroutine holds, the goroutine waits
  in its write and does not read on, so that it never sees the end of the user's input: as
  long as the client neither takes nor sends anything, \<open>proxyConn\<close> does not return, does not
  cancel the request and does not close the user's connection, whatever the user does, leaving
  included, although nothing fails.
\<close>

theorem stalled_client_hides_user:
  assumes "up_running s" and "\<not> cancelled s" and "\<not> user_closed s"
    and "phase s = Requesting \<or> phase s = CopyingBack" and "up_held s \<noteq> []" and "room \<le> length (up_stream s)"
    and "down_held s = []" and "down_stream s = []" and "\<not> client_done s"
    and "(\<lambda>s t. carry_step False room s t \<and> client_idle s t)\<^sup>*\<^sup>* s t"
  shows "up_running t \<and> \<not> cancelled t \<and> \<not> user_closed t"
proof -
  have "up_running t \<and> \<not> cancelled t \<and> \<not> user_closed t \<and> (phase t = Requesting \<or> phase t = CopyingBack) \<and>
      up_held t \<noteq> [] \<and> room \<le> length (up_stream t) \<and> down_held t = [] \<and> down_stream t = [] \<and> \<not> client_done t"
    using assms(10)
  proof (induction rule: rtranclp_induct)
    case base
    with assms(1-9) show ?case by simp
  next
    case (step t u)
    from step.hyps(2) have "carry_step False room t u" and idle: "client_idle t u" by simp_all
    from this(1) show ?case
    proof (cases rule: carry_step.cases)
      case (up_write bs rest)
      with step.IH show ?thesis by (cases bs) auto
    qed (use step.IH idle in \<open>auto simp: client_idle_def\<close>)
  qed
  then show ?thesis by simp
qed

theorem stalled_client_hides_user_witness:
  "(carry_step False 1)\<^sup>*\<^sup>* new_carry stuffed \<and> user_left stuffed \<and> \<not> cancelled stuffed \<and> \<not> user_closed stuffed"
  using stuffed_reachable stalled_client_hides_user [where s = stuffed and t = stuffed and room = 1, OF _ _ _ _ _ _ _ _ _ rtranclp.rtrancl_refl]
  by (simp add: stuffed_def new_carry_def)

end
