(* ===== verification/StreamRelay.thy ===== *)
theory StreamRelay
  imports ProxyConn
begin

text \<open>
  The two directions of \<open>StreamProxy.Proxy\<close> (streamproxy.go) once the local service has been
  dialled, and the whole way of a connection: from the user through \<open>proxyConn\<close> on the
  server, the HTTP/2 stream and the proxy on the client to the local service, and back. As in
  \<open>ProxyConn\<close> both copies read a chunk and do not read on before all of it is written.
\<close>

section \<open>The proxy on the client\<close>

text \<open>
  A direction is being copied, has been copied to the end of its source, or has failed.

  \<^item> To the local service: \<open>body\<close> is all that has arrived of the request's body, \<open>body_queue\<close>
    what of it is not yet read, \<open>up_chunk\<close> what the handler has read and not yet written,
    \<open>local_socket\<close> what waits in the local connection, and \<open>local_got\<close> what the service has
    taken. \<open>stream_reset\<close> says that the server has given up the stream.
  \<^item> From it: \<open>local_bytes\<close> is all the service has sent, \<open>local_queue\<close> what of it is not yet
    read, \<open>down_chunk\<close> what the goroutine has read and not yet written, and \<open>to_server\<close> what
    has been written to the response. \<open>local_closed\<close>: the service has closed its sending side.
\<close>

datatype copying = Copying | CopiedAll | CopyFailed

record relay =
  body :: string
  body_queue :: string
  stream_reset :: bool
  upward :: copying
  up_chunk :: string
  local_socket :: string
  local_got :: string
  local_bytes :: string
  local_queue :: string
  local_closed :: bool
  downward :: copying
  down_chunk :: string
  to_server :: string
  returned :: bool

definition new_relay :: relay where
  "new_relay = \<lparr>body = [], body_queue = [], stream_reset = False, upward = Copying, up_chunk = [],
     local_socket = [], local_got = [], local_bytes = [], local_queue = [], local_closed = False,
     downward = Copying, down_chunk = [], to_server = [], returned = False\<rparr>"

text \<open>
  Steps of the stream, of the local service, of the two copies and of the handler. The
  request's body ends in no other way than by the reset, since the server keeps its pipe
  open until it gives up the stream. The copy from the local service notices the reset when
  it has something to write, and the copy to it notices that it has closed in the same way.
  \<open>stream\<close> and \<open>service\<close> say whether the stream brings anything at all (bytes or the reset),
  and whether the local service does anything but read, the breaking of its connection
  included. \<open>room\<close> bounds what waits in the local connection. When the stream has room for
  what is written to the response is a matter of the transport.
\<close>

inductive relay_step :: "nat \<Rightarrow> bool \<Rightarrow> bool \<Rightarrow> relay \<Rightarrow> relay \<Rightarrow> bool"
  for room :: nat and stream service :: bool where
  arrives: "\<lbrakk>stream; \<not> stream_reset r; bs \<noteq> []\<rbrakk> \<Longrightarrow>
    relay_step room stream service r (r\<lparr>body := body r @ bs, body_queue := body_queue r @ bs\<rparr>)"
| resets: "\<lbrakk>stream; \<not> stream_reset r\<rbrakk> \<Longrightarrow> relay_step room stream service r (r\<lparr>stream_reset := True\<rparr>)"
| local_takes: "\<lbrakk>local_socket r = bs @ rest; bs \<noteq> []\<rbrakk> \<Longrightarrow>
    relay_step room stream service r (r\<lparr>local_socket := rest, local_got := local_got r @ bs\<rparr>)"
| local_writes: "\<lbrakk>service; \<not> local_closed r; bs \<noteq> []\<rbrakk> \<Longrightarrow>
    relay_step room stream service r (r\<lparr>local_bytes := local_bytes r @ bs, local_queue := local_queue r @ bs\<rparr>)"
| local_closes: "\<lbrakk>service; \<not> local_closed r\<rbrakk> \<Longrightarrow> relay_step room stream service r (r\<lparr>local_closed := True\<rparr>)"
| up_reads: "\<lbrakk>upward r = Copying; up_chunk r = []; body_queue r = bs @ rest; bs \<noteq> []\<rbrakk> \<Longrightarrow>
    relay_step room stream service r (r\<lparr>body_queue := rest, up_chunk := bs\<rparr>)"
| up_writes: "\<lbrakk>upward r = Copying; up_chunk r = bs @ rest; bs \<noteq> []; length (local_socket r) + length bs \<le> room\<rbrakk> \<Longrightarrow>
    relay_step room stream service r (r\<lparr>up_chunk := rest, local_socket := local_socket r @ bs\<rparr>)"
| up_ends: "\<lbrakk>upward r = Copying; up_chunk r = []; stream_reset r\<rbrakk> \<Longrightarrow>
    relay_step room stream service r (r\<lparr>upward := CopiedAll\<rparr>)"
| up_fails: "\<lbrakk>upward r = Copying; up_chunk r \<noteq> []; local_closed r \<or> service\<rbrakk> \<Longrightarrow>
    relay_step room stream service r (r\<lparr>upward := CopyFailed\<rparr>)"
| down_reads: "\<lbrakk>downward r = Copying; down_chunk r = []; local_queue r = bs @ rest; bs \<noteq> []\<rbrakk> \<Longrightarrow>
    relay_step room stream service r (r\<lparr>local_queue := rest, down_chunk := bs\<rparr>)"
| down_writes: "\<lbrakk>downward r = Copying; down_chunk r = bs @ rest; bs \<noteq> []; \<not> stream_reset r\<rbrakk> \<Longrightarrow>
    relay_step room stream service r (r\<lparr>down_chunk := rest, to_server := to_server r @ bs\<rparr>)"
| down_ends: "\<lbrakk>downward r = Copying; down_chunk r = []; local_queue r = []; local_closed r\<rbrakk> \<Longrightarrow>
    relay_step room stream service r (r\<lparr>downward := CopiedAll\<rparr>)"
| down_fails: "\<lbrakk>downward r = Copying; down_chunk r \<noteq> []; stream_reset r\<rbrakk> \<Longrightarrow>
    relay_step room stream service r (r\<lparr>downward := CopyFailed\<rparr>)"
| down_breaks: "\<lbrakk>service; downward r = Copying\<rbrakk> \<Longrightarrow> relay_step room stream service r (r\<lparr>downward := CopyFailed\<rparr>)"
| returns: "\<lbrakk>upward r \<noteq> Copying; downward r \<noteq> Copying; \<not> returned r\<rbrakk> \<Longrightarrow>
    relay_step room stream service r (r\<lparr>returned := True\<rparr>)"

definition relay_ok :: "relay \<Rightarrow> bool" where
  "relay_ok r \<longleftrightarrow>
     body r = local_got r @ local_socket r @ up_chunk r @ body_queue r \<and>
     local_bytes r = to_server r @ down_chunk r @ local_queue r \<and>
     (returned r \<longrightarrow> downward r \<noteq> Copying) \<and>
     (downward r = CopiedAll \<longrightarrow> local_closed r \<and> down_chunk r = [] \<and> local_queue r = [])"

lemma relay_ok_new [inv_intros]: "relay_ok new_relay"
  by (simp add: relay_ok_def new_relay_def)

lemma relay_ok_step [inv_intros]: "relay_step room stream service r t \<Longrightarrow> relay_ok r \<Longrightarrow> relay_ok t"
  by (induction rule: relay_step.induct) (simp_all add: relay_ok_def)

interpretation relayed: invariant_system "\<lambda>r. r = new_relay" "relay_step room stream service" relay_ok
  for room stream service
  by unfold_locales (auto intro: inv_intros)

section \<open>A silent local service\<close>

text \<open>
  C12: A user who goes away does not end the proxy on the client. When the server has given
  up the stream and all the local service has sent so far is copied, the goroutine still
  reads from the local service, which is told nothing: as long as it stays silent,
  the handler does not return, so that it never closes the local connection.
\<close>

theorem silent_service_holds_proxy:
  assumes "downward r = Copying" and "down_chunk r = []" and "local_queue r = []" and "\<not> local_closed r"
    and "\<not> returned r"
    and "(relay_step room stream False)\<^sup>*\<^sup>* r t"
  shows "\<not> returned t \<and> downward t = Copying"
proof -
  have "downward t = Copying \<and> down_chunk t = [] \<and> local_queue t = [] \<and> \<not> local_closed t \<and> \<not> returned t"
    using assms(6)
  proof (induction rule: rtranclp_induct)
    case base
    with assms(1-5) show ?case by simp
  next
    case (step t u)
    from step.hyps(2) step.IH show ?case by (cases rule: relay_step.cases) auto
  qed
  then show ?thesis by simp
qed

definition abandoned :: relay where
  "abandoned = new_relay\<lparr>stream_reset := True, upward := CopiedAll\<rparr>"

theorem silent_service_holds_proxy_witness:
  "(relay_step 8 True True)\<^sup>*\<^sup>* new_relay abandoned \<and> stream_reset abandoned \<and> upward abandoned \<noteq> Copying \<and>
   \<not> returned abandoned \<and> downward abandoned = Copying"
proof -
  have "relay_step 8 True True new_relay (new_relay\<lparr>stream_reset := True\<rparr>)"
    by (rule resets) (simp_all add: new_relay_def)
  moreover have "relay_step 8 True True (new_relay\<lparr>stream_reset := True\<rparr>) abandoned"
    unfolding abandoned_def
    using up_ends [where r = "new_relay\<lparr>stream_reset := True\<rparr>" and room = 8 and stream = True and service = True]
    by (simp add: new_relay_def)
  ultimately have "(relay_step 8 True True)\<^sup>*\<^sup>* new_relay abandoned"
    by (meson r_into_rtranclp rtranclp.rtrancl_into_rtrancl)
  moreover have "downward abandoned = Copying" "down_chunk abandoned = []" "local_queue abandoned = []"
      "\<not> local_closed abandoned" "\<not> returned abandoned"
    by (simp_all add: abandoned_def new_relay_def)
  from silent_service_holds_proxy [OF this rtranclp.rtrancl_refl [of "relay_step 8 True False"]]
  have "\<not> returned abandoned \<and> downward abandoned = Copying" .
  ultimately show ?thesis by (simp add: abandoned_def)
qed

section \<open>A local service that has closed\<close>

text \<open>
  C11: The end of what the local service sends does not reach the user by itself. Once the
  handler has copied all that arrived, it reads on from the stream: as long as the user sends
  nothing more, the handler does not return, whatever the local service does (close
  included), so that the response is never ended and the user's connection stays open.
\<close>

theorem closed_service_holds_user:
  assumes "upward r = Copying" and "up_chunk r = []" and "body_queue r = []" and "\<not> stream_reset r"
    and "\<not> returned r"
    and "(relay_step room False service)\<^sup>*\<^sup>* r t"
  shows "\<not> returned t \<and> upward t = Copying"
proof -
  have "upward t = Copying \<and> up_chunk t = [] \<and> body_queue t = [] \<and> \<not> stream_reset t \<and> \<not> returned t"
    using assms(6)
  proof (induction rule: rtranclp_induct)
    case base
    with assms(1-5) show ?case by simp
  next
    case (step t u)
    from step.hyps(2) step.IH show ?case by (cases rule: relay_step.cases) auto
  qed
  then show ?thesis by simp
qed

definition closed_down :: relay where
  "closed_down = new_relay\<lparr>local_bytes := ''bye'', to_server := ''bye'', local_closed := True, downward := CopiedAll\<rparr>"

theorem closed_service_holds_user_witness:
  "(relay_step 8 False True)\<^sup>*\<^sup>* new_relay closed_down \<and> local_closed closed_down \<and> downward closed_down = CopiedAll \<and>
   to_server closed_down = ''bye'' \<and> \<not> returned closed_down \<and> upward closed_down = Copying"
proof -
  let ?r1 = "new_relay\<lparr>local_bytes := ''bye'', local_queue := ''bye''\<rparr>"
  let ?r2 = "?r1\<lparr>local_queue := [], down_chunk := ''bye''\<rparr>"
  let ?r3 = "?r2\<lparr>down_chunk := [], to_server := ''bye''\<rparr>"
  let ?r4 = "?r3\<lparr>local_closed := True\<rparr>"
  have "relay_step 8 False True new_relay ?r1"
    using local_writes [where r = new_relay and bs = "''bye''" and room = 8 and stream = False and service = True]
    by (simp add: new_relay_def)
  moreover have "relay_step 8 False True ?r1 ?r2"
    using down_reads [where r = ?r1 and bs = "''bye''" and rest = "[]" and room = 8 and stream = False and service = True]
    by (simp add: new_relay_def)
  moreover have "relay_step 8 False True ?r2 ?r3"
    using down_writes [where r = ?r2 and bs = "''bye''" and rest = "[]" and room = 8 and stream = False and service = True]
    by (simp add: new_relay_def)
  moreover have "relay_step 8 False True ?r3 ?r4" by (rule local_closes) (simp_all add: new_relay_def)
  moreover have "relay_step 8 False True ?r4 closed_down"
    using down_ends [where r = ?r4 and room = 8 and stream = False and service = True]
    by (simp add: new_relay_def closed_down_def)
  ultimately have run: "(relay_step 8 False True)\<^sup>*\<^sup>* new_relay closed_down"
    by (meson rtranclp.rtrancl_refl rtranclp.rtrancl_into_rtrancl)
  have "upward new_relay = Copying" "up_chunk new_relay = []" "body_queue new_relay = []" "\<not> stream_reset new_relay"
      "\<not> returned new_relay"
    by (simp_all add: new_relay_def)
  from run closed_service_holds_user [OF this run] show ?thesis
    by (simp add: closed_down_def)
qed

section \<open>From the user to the local service and back\<close>

text \<open>
  The two ends of one stream. What the client takes of the stream in \<open>ProxyConn\<close> is what
  arrives at the proxy, and what the proxy writes is what the client sends there; the
  response ends when the proxy on the client has returned. Without faults the client sees a
  reset only after the server has cancelled, and the connection to the local service does not
  break; with faults both happen at any time.
\<close>

inductive pipe_step :: "bool \<Rightarrow> nat \<Rightarrow> carry \<times> relay \<Rightarrow> carry \<times> relay \<Rightarrow> bool" for faults :: bool and room :: nat where
  at_server: "\<lbrakk>carry_step faults room s t; client_got t = client_got s; client_bytes t = client_bytes s;
      client_done t = client_done s\<rbrakk> \<Longrightarrow>
    pipe_step faults room (s, r) (t, r)"
| at_client: "\<lbrakk>relay_step room True True r u; body u = body r; to_server u = to_server r;
      stream_reset u = stream_reset r; faults \<or> (downward u = CopyFailed \<longrightarrow> downward r = CopyFailed \<or> stream_reset r)\<rbrakk> \<Longrightarrow>
    pipe_step faults room (s, r) (s, u)"
| goes_up: "\<lbrakk>carry_step faults room s t; client_got t = client_got s @ bs; bs \<noteq> [];
      relay_step room True True r u; body u = body r @ bs\<rbrakk> \<Longrightarrow>
    pipe_step faults room (s, r) (t, u)"
| goes_down: "\<lbrakk>relay_step room True True r u; to_server u = to_server r @ bs; bs \<noteq> [];
      carry_step faults room s t; client_bytes t = client_bytes s @ bs\<rbrakk> \<Longrightarrow>
    pipe_step faults room (s, r) (t, u)"
| ends: "\<lbrakk>returned r; carry_step faults room s t; client_done t \<noteq> client_done s\<rbrakk> \<Longrightarrow>
    pipe_step faults room (s, r) (t, r)"
| gives_up: "\<lbrakk>faults \<or> cancelled s; relay_step room True True r u; stream_reset u \<noteq> stream_reset r\<rbrakk> \<Longrightarrow>
    pipe_step faults room (s, r) (s, u)"

definition pipe_ok :: "bool \<Rightarrow> carry \<times> relay \<Rightarrow> bool" where
  "pipe_ok faults p \<longleftrightarrow> (case p of (s, r) \<Rightarrow>
     carry_ok faults s \<and> relay_ok r \<and> client_got s = body r \<and> client_bytes s = to_server r \<and>
     (client_done s \<longrightarrow> returned r) \<and>
     (\<not> faults \<longrightarrow> stream_reset r \<longrightarrow> cancelled s) \<and>
     (\<not> faults \<longrightarrow> downward r = CopyFailed \<longrightarrow> user_done s))"

text \<open>What a step at one end leaves alone, by what changes.\<close>

lemma carry_step_frame:
  assumes "carry_step faults room s t"
  shows "(cancelled s \<longrightarrow> cancelled t) \<and> (user_done s \<longrightarrow> user_done t)"
    and "client_got t \<noteq> client_got s \<Longrightarrow> client_bytes t = client_bytes s \<and> client_done t = client_done s"
    and "client_bytes t \<noteq> client_bytes s \<Longrightarrow> client_got t = client_got s \<and> client_done t = client_done s"
    and "client_done t \<noteq> client_done s \<Longrightarrow> client_got t = client_got s \<and> client_bytes t = client_bytes s"
  using assms by (cases rule: carry_step.cases; simp add: carry_up_end_def carry_return_def)+

lemma relay_step_frame:
  assumes "relay_step room stream service r u"
  shows "returned r \<longrightarrow> returned u"
    and "body u \<noteq> body r \<Longrightarrow> to_server u = to_server r \<and> downward u = downward r \<and> stream_reset u = stream_reset r"
    and "to_server u \<noteq> to_server r \<Longrightarrow> body u = body r \<and> downward u = downward r \<and> stream_reset u = stream_reset r"
    and "stream_reset u \<noteq> stream_reset r \<Longrightarrow> body u = body r \<and> to_server u = to_server r \<and> downward u = downward r"
    and "downward u \<noteq> downward r \<Longrightarrow> downward r = Copying"
  using assms by (cases rule: relay_step.cases; simp)+

text \<open>A copy that fails at the client, without faults, fails since the user has closed.\<close>

lemma pipe_failure:
  assumes ok: "pipe_ok False (s, r)" and "stream_reset r" "downward r = Copying"
  shows "user_done s"
proof -
  from ok have c: "carry_ok False s" and "relay_ok r" and "client_done s \<longrightarrow> returned r" "cancelled s"
    using assms(2) by (simp_all add: pipe_ok_def)
  with assms(3) have "\<not> client_done s" by (auto simp: relay_ok_def)
  with c \<open>cancelled s\<close> show ?thesis by (auto simp: carry_ok_def)
qed

lemma pipe_ok_step [inv_intros]:
  assumes "pipe_step faults room p q" "pipe_ok faults p"
  shows "pipe_ok faults q"
  using assms(1)
proof (cases rule: pipe_step.cases)
  case (at_server s t r)
  with assms(2) carry_step_frame(1) [OF at_server(3)] carry_ok_step [OF at_server(3)] show ?thesis
    by (simp add: pipe_ok_def)
next
  case (at_client r u s)
  then have ok: "pipe_ok faults (s, r)" using assms(2) by simp
  then have "relay_ok u" using relay_ok_step [OF at_client(3)] by (simp add: pipe_ok_def)
  moreover have "user_done s" if "\<not> faults" "downward u = CopyFailed"
  proof (cases "downward r = CopyFailed")
    case True
    with ok that show ?thesis by (simp add: pipe_ok_def)
  next
    case False
    with at_client that have "stream_reset r" "downward u \<noteq> downward r" by auto
    with pipe_failure relay_step_frame(5) [OF at_client(3)] ok that(1) show ?thesis by simp
  qed
  ultimately show ?thesis using ok relay_step_frame(1) [OF at_client(3)] at_client by (auto simp: pipe_ok_def)
next
  case (goes_up s t bs r u)
  then have "client_got t \<noteq> client_got s" "body u \<noteq> body r" by simp_all
  note frames = carry_step_frame(2) [OF goes_up(3) this(1)] relay_step_frame(2) [OF goes_up(6) this(2)]
  with goes_up assms(2) carry_ok_step [OF goes_up(3)] relay_ok_step [OF goes_up(6)]
    carry_step_frame(1) [OF goes_up(3)] relay_step_frame(1) [OF goes_up(6)]
  show ?thesis by (simp add: pipe_ok_def)
next
  case (goes_down r u bs s t)
  then have "client_bytes t \<noteq> client_bytes s" "to_server u \<noteq> to_server r" by simp_all
  note frames = carry_step_frame(3) [OF goes_down(6) this(1)] relay_step_frame(3) [OF goes_down(3) this(2)]
  with goes_down assms(2) carry_ok_step [OF goes_down(6)] relay_ok_step [OF goes_down(3)]
    carry_step_frame(1) [OF goes_down(6)] relay_step_frame(1) [OF goes_down(3)]
  show ?thesis by (simp add: pipe_ok_def)
next
  case (ends r s t)
  with carry_step_frame(4) [OF ends(4,5)] assms(2) carry_ok_step [OF ends(4)] carry_step_frame(1) [OF ends(4)]
  show ?thesis by (simp add: pipe_ok_def)
next
  case (gives_up s r u)
  with relay_step_frame(4) [OF gives_up(4,5)] assms(2) relay_ok_step [OF gives_up(4)] relay_step_frame(1) [OF gives_up(4)]
  show ?thesis by (auto simp: pipe_ok_def)
qed

interpretation piped: invariant_system "\<lambda>p. p = (new_carry, new_relay)" "pipe_step faults room" "pipe_ok faults"
  for faults room
proof unfold_locales
  show "pipe_ok faults p" if "p = (new_carry, new_relay)" for p
    using that carry_ok_new relay_ok_new by (simp add: pipe_ok_def) (simp add: new_carry_def new_relay_def)
qed (rule pipe_ok_step)

text \<open>
  C4: A connection is a pipe from end to end. However the four copies and the transport
  interleave, whatever the buffers hold and whatever fails, the local service receives a
  prefix of what the user sent, and the user a prefix of what the local service sent. If
  nothing fails, and the user keeps the sending side open, and the stream refuses none of the
  user's bytes (as it does after its end), then everything the local service sent, up to its
  end, has been written to the user's connection when that is closed.
\<close>

theorem end_to_end_pipe:
  assumes "(pipe_step faults room)\<^sup>*\<^sup>* (new_carry, new_relay) (s, r)"
  shows "prefix (local_got r) (user_bytes s) \<and> prefix (user_got s) (local_bytes r) \<and>
    (if \<not> faults \<and> user_closed s \<and> \<not> user_done s \<and> \<not> up_refused s
     then local_closed r \<and> user_got s @ user_socket s = local_bytes r else True)"
proof -
  have ok: "pipe_ok faults (s, r)" using piped.reachable_inv [OF refl assms] .
  then have parts: "carry_ok faults s" "relay_ok r" "body r = client_got s" "to_server r = client_bytes s"
    by (simp_all add: pipe_ok_def)
  then have "prefix (local_got r) (user_bytes s)" "prefix (user_got s) (local_bytes r)"
    by (simp_all add: carry_ok_def in_transit_def relay_ok_def)
  moreover have "local_closed r \<and> user_got s @ user_socket s = local_bytes r"
    if "\<not> faults" "user_closed s" "\<not> user_done s" "\<not> up_refused s"
  proof -
    have s: "client_done s" "down_held s = []" "down_stream s = []" "in_transit s"
      using parts(1) that by (auto simp: carry_ok_def)
    then have "returned r" "downward r \<noteq> CopyFailed" using ok that by (auto simp: pipe_ok_def)
    then have "downward r = CopiedAll" using parts(2) by (cases "downward r") (auto simp: relay_ok_def)
    with parts(2,4) s show ?thesis by (simp add: relay_ok_def in_transit_def)
  qed
  ultimately show ?thesis by simp
qed

text \<open>
  An exchange from the first byte to the end: the user sends ping, receives pong, and the
  local service closes; a last byte of the user makes the handler on the client notice.
\<close>

definition served_carry :: carry where
  "served_carry = carry_return None (new_carry\<lparr>phase := AwaitingDone, user_bytes := ''ping!'',
     client_got := ''ping!'', client_bytes := ''pong'', client_done := True, user_socket := ''pong''\<rparr>)"

definition served_relay :: relay where
  "served_relay = new_relay\<lparr>body := ''ping!'', upward := CopyFailed, up_chunk := ''!'', local_socket := ''ping'',
     local_bytes := ''pong'', local_closed := True, downward := CopiedAll, to_server := ''pong'', returned := True\<rparr>"

lemma pipe_steps_step:
  "\<lbrakk>(pipe_step faults room)\<^sup>*\<^sup>* p q; pipe_step faults room q u\<rbrakk> \<Longrightarrow> (pipe_step faults room)\<^sup>*\<^sup>* p u"
  by (rule rtranclp.rtrancl_into_rtrancl)

lemmas pipe_samples = new_carry_def new_relay_def carry_return_def

text \<open>The user's bytes reach the local socket.\<close>

lemma carried_up:
  assumes "up_running s" "\<not> user_closed s" "\<not> user_done s" "user_queue s = []" "up_held s = []" "up_stream s = []"
    and "length bs \<le> room" "bs \<noteq> []" "\<not> stream_reset r"
  shows "(pipe_step faults room)\<^sup>*\<^sup>* (s, r)
    (s\<lparr>user_bytes := user_bytes s @ bs, client_got := client_got s @ bs\<rparr>,
     r\<lparr>body := body r @ bs, body_queue := body_queue r @ bs\<rparr>)"
proof -
  let ?a = "s\<lparr>user_bytes := user_bytes s @ bs, user_queue := bs\<rparr>"
  let ?b = "?a\<lparr>user_queue := [], up_held := bs\<rparr>"
  let ?c = "?b\<lparr>up_held := [], up_stream := bs\<rparr>"
  let ?d = "?c\<lparr>up_stream := [], client_got := client_got s @ bs\<rparr>"
  let ?r = "r\<lparr>body := body r @ bs, body_queue := body_queue r @ bs\<rparr>"
  have "pipe_step faults room (s, r) (?a, r)"
    using user_write [of s bs faults room] assms by (intro at_server) simp_all
  moreover have "pipe_step faults room (?a, r) (?b, r)"
    using up_read [of ?a bs "[]" faults room] assms by (intro at_server) simp_all
  moreover have "pipe_step faults room (?b, r) (?c, r)"
    using up_write [of ?b bs "[]" room faults] assms by (intro at_server) simp_all
  moreover have "pipe_step faults room (?c, r) (?d, ?r)"
    using client_takes [of ?c bs "[]" faults room] arrives [of True r bs room True] assms
    by (intro goes_up [where bs = bs]) simp_all
  ultimately have "(pipe_step faults room)\<^sup>*\<^sup>* (s, r) (?d, ?r)"
    by (meson pipe_steps_step rtranclp.rtrancl_refl)
  moreover have "?d = s\<lparr>user_bytes := user_bytes s @ bs, client_got := client_got s @ bs\<rparr>"
    using assms by (cases s) simp
  ultimately show ?thesis by simp
qed

text \<open>An answer of the local service reaches the user's connection.\<close>

lemma carried_down:
  assumes "phase s = Requesting" "\<not> client_done s" "down_stream s = []" "down_held s = []" "user_socket s = []"
    and "downward r = Copying" "\<not> local_closed r" "local_queue r = []" "down_chunk r = []" "\<not> stream_reset r"
    and "length bs \<le> room" "bs \<noteq> []"
  shows "(pipe_step faults room)\<^sup>*\<^sup>* (s, r)
    (s\<lparr>phase := CopyingBack, client_bytes := client_bytes s @ bs, user_socket := bs\<rparr>,
     r\<lparr>local_bytes := local_bytes r @ bs, to_server := to_server r @ bs\<rparr>)"
proof -
  let ?r1 = "r\<lparr>local_bytes := local_bytes r @ bs, local_queue := bs\<rparr>"
  let ?r2 = "?r1\<lparr>local_queue := [], down_chunk := bs\<rparr>"
  let ?r3 = "?r2\<lparr>down_chunk := [], to_server := to_server r @ bs\<rparr>"
  let ?a = "s\<lparr>client_bytes := client_bytes s @ bs, down_stream := bs\<rparr>"
  let ?b = "?a\<lparr>phase := CopyingBack\<rparr>"
  let ?c = "?b\<lparr>down_stream := [], down_held := bs\<rparr>"
  let ?d = "?c\<lparr>down_held := [], user_socket := bs\<rparr>"
  have "pipe_step faults room (s, r) (s, ?r1)"
    using local_writes [of True r bs room True] assms by (intro at_client) simp_all
  moreover have "pipe_step faults room (s, ?r1) (s, ?r2)"
    using down_reads [of ?r1 bs "[]" room True True] assms by (intro at_client) simp_all
  moreover have "pipe_step faults room (s, ?r2) (?a, ?r3)"
    using down_writes [of ?r2 bs "[]" room True True] client_write [of s bs room faults] assms
    by (intro goes_down [where bs = bs]) simp_all
  moreover have "pipe_step faults room (?a, ?r3) (?b, ?r3)"
    using responds [of ?a faults room] assms by (intro at_server) simp_all
  moreover have "pipe_step faults room (?b, ?r3) (?c, ?r3)"
    using down_read [of ?b bs "[]" faults room] assms by (intro at_server) simp_all
  moreover have "pipe_step faults room (?c, ?r3) (?d, ?r3)"
    using down_write [of ?c bs "[]" room faults] assms by (intro at_server) simp_all
  ultimately have "(pipe_step faults room)\<^sup>*\<^sup>* (s, r) (?d, ?r3)"
    by (meson pipe_steps_step rtranclp.rtrancl_refl)
  moreover have "?d = s\<lparr>phase := CopyingBack, client_bytes := client_bytes s @ bs, user_socket := bs\<rparr>"
    using assms by (cases s) simp
  moreover have "?r3 = r\<lparr>local_bytes := local_bytes r @ bs, to_server := to_server r @ bs\<rparr>"
    using assms by (cases r) simp
  ultimately show ?thesis by simp
qed

lemma served_reachable: "(pipe_step False 8)\<^sup>*\<^sup>* (new_carry, new_relay) (served_carry, served_relay)"
proof -
  let ?s1 = "new_carry\<lparr>user_bytes := ''ping'', client_got := ''ping''\<rparr>"
  let ?r1 = "new_relay\<lparr>body := ''ping'', body_queue := ''ping''\<rparr>"
  let ?r2 = "?r1\<lparr>body_queue := [], up_chunk := ''ping''\<rparr>"
  let ?r3 = "?r2\<lparr>up_chunk := [], local_socket := ''ping''\<rparr>"
  let ?s2 = "?s1\<lparr>phase := CopyingBack, client_bytes := ''pong'', user_socket := ''pong''\<rparr>"
  let ?r4 = "?r3\<lparr>local_bytes := ''pong'', to_server := ''pong''\<rparr>"
  let ?r5 = "?r4\<lparr>local_closed := True\<rparr>"
  let ?r6 = "?r5\<lparr>downward := CopiedAll\<rparr>"
  let ?s3 = "?s2\<lparr>user_bytes := ''ping!'', client_got := ''ping!''\<rparr>"
  let ?r7 = "?r6\<lparr>body := ''ping!'', body_queue := ''!''\<rparr>"
  let ?r8 = "?r7\<lparr>body_queue := [], up_chunk := ''!''\<rparr>"
  let ?r9 = "?r8\<lparr>upward := CopyFailed\<rparr>"
  let ?r10 = "?r9\<lparr>returned := True\<rparr>"
  let ?s4 = "?s3\<lparr>client_done := True\<rparr>"
  let ?s5 = "?s4\<lparr>phase := AwaitingDone\<rparr>"
  have q0: "(pipe_step False 8)\<^sup>*\<^sup>* (new_carry, new_relay) (?s1, ?r1)"
    using carried_up [of new_carry "''ping''" 8 new_relay False] by (simp add: pipe_samples)
  have p1: "pipe_step False 8 (?s1, ?r1) (?s1, ?r2)"
    using up_reads [where r = ?r1 and bs = "''ping''" and rest = "[]" and room = 8 and stream = True and service = True]
    by (intro at_client) (simp_all add: pipe_samples)
  have p2: "pipe_step False 8 (?s1, ?r2) (?s1, ?r3)"
    using up_writes [where r = ?r2 and bs = "''ping''" and rest = "[]" and room = 8 and stream = True and service = True]
    by (intro at_client) (simp_all add: pipe_samples)
  have q3: "(pipe_step False 8)\<^sup>*\<^sup>* (?s1, ?r3) (?s2, ?r4)"
    using carried_down [of ?s1 ?r3 "''pong''" 8 False] by (simp add: pipe_samples)
  have p4: "pipe_step False 8 (?s2, ?r4) (?s2, ?r5)"
    using local_closes [where r = ?r4 and room = 8 and stream = True and service = True]
    by (intro at_client) (simp_all add: pipe_samples)
  have p5: "pipe_step False 8 (?s2, ?r5) (?s2, ?r6)"
    using down_ends [where r = ?r5 and room = 8 and stream = True and service = True]
    by (intro at_client) (simp_all add: pipe_samples)
  have q6: "(pipe_step False 8)\<^sup>*\<^sup>* (?s2, ?r6) (?s3, ?r7)"
    using carried_up [of ?s2 "''!''" 8 ?r6 False] by (simp add: pipe_samples)
  have p7: "pipe_step False 8 (?s3, ?r7) (?s3, ?r8)"
    using up_reads [where r = ?r7 and bs = "''!''" and rest = "[]" and room = 8 and stream = True and service = True]
    by (intro at_client) (simp_all add: pipe_samples)
  have p8: "pipe_step False 8 (?s3, ?r8) (?s3, ?r9)"
    using StreamRelay.relay_step.up_fails [where r = ?r8 and room = 8 and stream = True and service = True]
    by (intro at_client) (simp_all add: pipe_samples)
  have p9: "pipe_step False 8 (?s3, ?r9) (?s3, ?r10)"
    using returns [where r = ?r9 and room = 8 and stream = True and service = True]
    by (intro at_client) (simp_all add: pipe_samples)
  have p10: "pipe_step False 8 (?s3, ?r10) (?s4, ?r10)"
    using client_close [where s = ?s3 and faults = False and room = 8]
    by (intro ends) (simp_all add: pipe_samples)
  have p11: "pipe_step False 8 (?s4, ?r10) (?s5, ?r10)"
    using down_eof [where s = ?s4 and faults = False and room = 8]
    by (intro at_server) (simp_all add: pipe_samples)
  have p12: "pipe_step False 8 (?s5, ?r10) (carry_return None ?s5, ?r10)"
    using timeout [where s = ?s5 and faults = False and room = 8]
    by (intro at_server) (simp_all add: pipe_samples)
  note run = rtranclp_trans [OF pipe_steps_step [OF pipe_steps_step [OF q0 p1] p2] q3]
  note run = rtranclp_trans [OF pipe_steps_step [OF pipe_steps_step [OF run p4] p5] q6]
  note run = pipe_steps_step [OF pipe_steps_step [OF pipe_steps_step [OF run p7] p8] p9]
  note run = pipe_steps_step [OF pipe_steps_step [OF pipe_steps_step [OF run p10] p11] p12]
  have "carry_return None ?s5 = served_carry" "?r10 = served_relay"
    by (simp_all add: pipe_samples served_carry_def served_relay_def)
  with run show ?thesis by (simp only:)
qed

theorem end_to_end_pipe_witness:
  "user_got served_carry @ user_socket served_carry = local_bytes served_relay \<and> local_bytes served_relay = ''pong'' \<and>
   prefix (local_got served_relay) (user_bytes served_carry)"
  using end_to_end_pipe [OF served_reachable]
  by (simp add: served_carry_def served_relay_def carry_return_def new_carry_def new_relay_def)

end
