(* ===== verification/MainCmd.thy ===== *)
theory MainCmd
  imports Main
begin

text \<open>
  The entry point (cmd/go-stream-tunnel/main.go): which command runs, what is printed
  besides its output, and the exit status. What a command makes of its arguments is an
  argument: whether its flags are accepted, and how it ends.
\<close>

datatype cmd_result = BadArguments string | RunFailed string | Finished

datatype printed = Version | Banner | CommandUsage string | GlobalUsage | Fatal string

definition main_run :: "bool \<Rightarrow> string list \<Rightarrow> (string list \<Rightarrow> cmd_result) \<Rightarrow> (string list \<Rightarrow> cmd_result)
    \<Rightarrow> (string list \<Rightarrow> cmd_result) \<Rightarrow> printed list \<times> nat" where
  "main_run version rest client server ca =
     (if version then ([Version], 0)
      else let out = [Banner, Version] in
        (case rest of
           [] \<Rightarrow> (out @ [GlobalUsage, Fatal ''ERROR: neither client, server, nor ca is specified''], 1)
         | cmd # more \<Rightarrow>
             if cmd = ''client'' then
               (case client more of
                  BadArguments err \<Rightarrow> (out @ [CommandUsage ''client'', Fatal err], 1)
                | RunFailed err \<Rightarrow> (out @ [Fatal err], 1)
                | Finished \<Rightarrow> (out, 0))
             else if cmd = ''server'' then
               (case server more of
                  BadArguments err \<Rightarrow> (out @ [Fatal (''ERROR: '' @ err)], 1)
                | RunFailed err \<Rightarrow> (out @ [Fatal (''ERROR: '' @ err)], 1)
                | Finished \<Rightarrow> (out, 0))
             else if cmd = ''ca'' then
               (case ca more of
                  BadArguments err \<Rightarrow> (out @ [CommandUsage ''ca'', Fatal err], 1)
                | RunFailed err \<Rightarrow> (out @ [Fatal (''ERROR: '' @ err)], 1)
                | Finished \<Rightarrow> (out, 0))
             else (out, 0)))"

text \<open>
  The exit status is 0 exactly if the version was asked for, a command finished, or the
  command is one the program does not know, which it accepts without a message.
\<close>

lemma main_exit_status:
  "snd (main_run version rest client server ca) = 0 \<longleftrightarrow>
     version \<or>
     (case rest of
        [] \<Rightarrow> False
      | cmd # more \<Rightarrow>
          (cmd = ''client'' \<longrightarrow> client more = Finished) \<and>
          (cmd = ''server'' \<longrightarrow> server more = Finished) \<and>
          (cmd = ''ca'' \<longrightarrow> ca more = Finished))"
  by (auto simp: main_run_def Let_def split: list.split cmd_result.split)

lemma unknown_command_accepted:
  "cmd \<notin> {''client'', ''server'', ''ca''} \<Longrightarrow>
     main_run False (cmd # more) client server ca = ([Banner, Version], 0)"
  by (simp add: main_run_def)

end
