(* ===== verification/ServerHttp.thy ===== *)
theory ServerHttp
  imports ServerClients
begin

text \<open>
  The server's listeners (server.go): their creation and shutdown, the accept loops, the
  routing of a public HTTP connection to the client that registered its host
  (\<open>handleHTTPConn\<close>), and the request that carries a connection to a client
  (\<open>connectRequest\<close>, \<open>proxyConn\<close>). The accept results of a listener and the answers of
  the network to each call are arguments.
\<close>

section \<open>Creating, starting and stopping\<close>

datatype start_error = MissingAddr | MissingTLSConfig | BindFailed string | HTTPListenFailed string
  | ListenerClosed

text \<open>\<open>listener\<close>: the configured listener, or a new one on the configured address.\<close>

definition config_listener :: "net_listen \<Rightarrow> server_config \<Rightarrow> listener set \<Rightarrow> start_error + (listener \<times> listener set)" where
  "config_listener lsn cfg opened =
     (case Listener cfg of
        Some l \<Rightarrow> Inr (l, opened)
      | None \<Rightarrow>
          if ListenAddr cfg = [] then Inl MissingAddr
          else if \<not> TLSConfig cfg then Inl MissingTLSConfig
          else (case lsn ''tcp'' (ListenAddr cfg) opened of
                  Inl err \<Rightarrow> Inl (BindFailed err)
                | Inr l \<Rightarrow> Inr (l, insert l opened)))"

text \<open>The two listeners of a server, and the listeners open in its process.\<close>

record server_net =
  listener :: "listener option"
  http_listener :: "listener option"
  net_open :: "listener set"

definition new_server_net :: "net_listen \<Rightarrow> server_config \<Rightarrow> listener set \<Rightarrow> start_error + server_net" where
  "new_server_net lsn cfg opened =
     (case config_listener lsn cfg opened of
        Inl err \<Rightarrow> Inl err
      | Inr (l, opened) \<Rightarrow> Inr \<lparr>listener = Some l, http_listener = None, net_open = opened\<rparr>)"

definition close_listener :: "listener option \<Rightarrow> server_net \<Rightarrow> server_net" where
  "close_listener l n =
     (case l of None \<Rightarrow> n | Some l \<Rightarrow> n\<lparr>net_open := net_open n - {l}\<rparr>)"

definition server_stop :: "server_net \<Rightarrow> server_net" where
  "server_stop n = close_listener (http_listener n) (close_listener (listener n) n)"

text \<open>The part of \<open>Start\<close> before its accept loop.\<close>

definition start_http :: "net_listen \<Rightarrow> server_config \<Rightarrow> server_net \<Rightarrow> start_error option \<times> server_net" where
  "start_http lsn cfg n =
     (if BaseDomain cfg \<noteq> [] \<and> HTTPAddr cfg \<noteq> [] then
        (case lsn ''tcp'' (HTTPAddr cfg) (net_open n) of
           Inl err \<Rightarrow> (Some (HTTPListenFailed err), close_listener (listener n) n)
         | Inr l \<Rightarrow> (None, n\<lparr>http_listener := Some l, net_open := insert l (net_open n)\<rparr>))
      else (None, n))"

text \<open>
  An accept loop: what \<open>Accept\<close> returns, call by call. A connection is handed to its own
  goroutine whether or not keepalive could be set on it; an error other than
  \<open>net.ErrClosed\<close> is logged and the loop goes on. The list of handed over connections
  comes with whether the loop has returned.
\<close>

datatype accepted = AcceptClosed | AcceptError string | Accepted nat

fun accept_loop :: "(nat \<Rightarrow> 'a) \<Rightarrow> accepted list \<Rightarrow> 'a list \<times> bool" where
  "accept_loop serve [] = ([], False)"
| "accept_loop serve (AcceptClosed # _) = ([], True)"
| "accept_loop serve (AcceptError err # rest) = accept_loop serve rest"
| "accept_loop serve (Accepted c # rest) =
     (let (started, returned) = accept_loop serve rest in (serve c # started, returned))"

definition server_start :: "net_listen \<Rightarrow> server_config \<Rightarrow> accepted list \<Rightarrow> server_net
    \<Rightarrow> start_error option \<times> nat list \<times> server_net" where
  "server_start lsn cfg accepts n =
     (case start_http lsn cfg n of
        (Some err, n) \<Rightarrow> (Some err, [], n)
      | (None, n) \<Rightarrow>
          (case accept_loop id accepts of
             (started, True) \<Rightarrow> (Some ListenerClosed, started, n)
           | (started, False) \<Rightarrow> (None, started, n)))"

definition listener_addr :: "(listener \<Rightarrow> string) \<Rightarrow> listener option \<Rightarrow> string" where
  "listener_addr addr l = (case l of None \<Rightarrow> [] | Some l \<Rightarrow> addr l)"

text \<open>\<open>listen\<close>: every connection to a client's TCP listener, with its control message.\<close>

definition listen_message :: "string \<Rightarrow> string \<Rightarrow> control_message" where
  "listen_message network addr =
     \<lparr>Action = ActionProxy, ForwardedHost = addr, ForwardedProto = network, RemoteAddr = []\<rparr>"

definition server_listen :: "string \<Rightarrow> string \<Rightarrow> accepted list \<Rightarrow> (nat \<times> control_message) list \<times> bool" where
  "server_listen network addr accepts = accept_loop (\<lambda>c. (c, listen_message network addr)) accepts"

definition listen_http :: "accepted list \<Rightarrow> nat list \<times> bool" where
  "listen_http accepts = accept_loop id accepts"

section \<open>Carrying a connection to a client\<close>

record request =
  req_url :: string
  req_header :: header
  req_body :: stream

definition connect_request :: "string option \<Rightarrow> ID \<Rightarrow> control_message \<Rightarrow> stream \<Rightarrow> string + request" where
  "connect_request req_error identifier msg r =
     (case req_error of
        Some err \<Rightarrow> Inl err
      | None \<Rightarrow> Inr \<lparr>req_url = pool_url identifier, req_header = write_to_header msg Map.empty, req_body = r\<rparr>)"

datatype proxy_error = RequestNotCreated string | IOError string | NoClientConn pool_error

text \<open>
  \<open>proxyConn\<close>: the connection the request travels on and the response body, which is
  what the user gets; the connection to the user is closed in every case.
\<close>

definition proxy_conn :: "(string \<Rightarrow> string) \<Rightarrow> (nat \<Rightarrow> bool) \<Rightarrow> string option
    \<Rightarrow> (nat \<Rightarrow> request \<Rightarrow> string + stream) \<Rightarrow> ID \<Rightarrow> nat \<Rightarrow> stream \<Rightarrow> control_message \<Rightarrow> server
    \<Rightarrow> (proxy_error + (nat \<times> request \<times> stream)) \<times> server" where
  "proxy_conn uni can req_error do identifier c input msg p =
     (case connect_request req_error identifier msg input of
        Inl err \<Rightarrow> (Inl (RequestNotCreated err), close_conn c p)
      | Inr req \<Rightarrow>
          (case get_client_conn uni (Some disconnected) can id (pool_addr identifier) p of
             (Inl err, p) \<Rightarrow> (Inl (NoClientConn err), close_conn c p)
           | (Inr cc, p) \<Rightarrow>
               (case do cc req of
                  Inl err \<Rightarrow> (Inl (IOError err), close_conn c p)
                | Inr body \<Rightarrow> (Inr (cc, req, body), close_conn c p))))"

section \<open>Routing by host\<close>

datatype http_outcome =
    Dropped
  | NotFound string
  | Forwarded ID control_message stream

definition http_message :: "string \<Rightarrow> string \<Rightarrow> control_message" where
  "http_message base full_host =
     \<lparr>Action = ActionProxy, ForwardedHost = http_slug_from_host base full_host,
      ForwardedProto = HTTP, RemoteAddr = []\<rparr>"

text \<open>
  \<open>handleHTTPConn\<close> up to its call of \<open>proxyConn\<close>; \<open>set_error\<close> and \<open>clear_error\<close> are the
  errors of the two \<open>SetReadDeadline\<close> calls.
\<close>

definition route_http :: "(string \<Rightarrow> string) \<Rightarrow> (string \<Rightarrow> nat) \<Rightarrow> (string \<Rightarrow> head_parse) \<Rightarrow> server_config
    \<Rightarrow> bool \<Rightarrow> bool \<Rightarrow> stream \<Rightarrow> registry \<Rightarrow> http_outcome" where
  "route_http uni room parse cfg set_error clear_error input r =
     (if set_error then Dropped
      else case peek_host_header room parse input of
        Inl _ \<Rightarrow> Dropped
      | Inr (host, replay) \<Rightarrow>
          if clear_error then Dropped
          else let full_host = request_host uni host in
            (case subscriber r full_host of
               None \<Rightarrow> NotFound full_host
             | Some identifier \<Rightarrow>
                 Forwarded identifier (http_message (BaseDomain cfg) full_host) replay))"

definition not_found_response :: string where
  "not_found_response =
     ''HTTP/1.1 404 Not Found'' @ [CHR 0x0D, CHR 0x0A] @ ''Connection: close'' @ [CHR 0x0D, CHR 0x0A] @
     ''Content-Length: 0'' @ [CHR 0x0D, CHR 0x0A, CHR 0x0D, CHR 0x0A]"

text \<open>\<open>handleHTTPConn\<close> with its effects: the bytes the user gets, and the state after.\<close>

definition handle_http_conn :: "(string \<Rightarrow> string) \<Rightarrow> (string \<Rightarrow> nat) \<Rightarrow> (string \<Rightarrow> head_parse) \<Rightarrow> server_config
    \<Rightarrow> bool \<Rightarrow> bool \<Rightarrow> (nat \<Rightarrow> bool) \<Rightarrow> string option \<Rightarrow> (nat \<Rightarrow> request \<Rightarrow> string + stream)
    \<Rightarrow> nat \<Rightarrow> stream \<Rightarrow> server \<Rightarrow> stream \<times> server" where
  "handle_http_conn uni room parse cfg set_error clear_error can req_error do c input p =
     (case route_http uni room parse cfg set_error clear_error input (reg (env p)) of
        Dropped \<Rightarrow> ([], close_conn c p)
      | NotFound _ \<Rightarrow> ([not_found_response], close_conn c p)
      | Forwarded identifier msg replay \<Rightarrow>
          (case proxy_conn uni can req_error do identifier c replay msg p of
             (Inl _, p) \<Rightarrow> ([], p)
           | (Inr (cc, req, body), p) \<Rightarrow> (body, p)))"


lemma http_message_simps [simp]:
  "Action (http_message base h) = ActionProxy"
  "ForwardedHost (http_message base h) = http_slug_from_host base h"
  "ForwardedProto (http_message base h) = HTTP"
  by (simp_all add: http_message_def)

lemma peek_host_header_result:
  assumes "peek_host_header room parse r = Inr (h, replay)"
  shows "concat replay = concat r \<and> (\<exists>seen later. concat r = seen @ later \<and> parse seen = HostIs h)"
proof -
  from assms obtain buf left where loop: "peek_loop room parse [] r = Inr (h, buf, left)"
      and replay: "replay = buf # left"
    by (auto simp: peek_host_header_def split: sum.splits)
  from peek_loop_result [OF loop] have "parse buf = HostIs h" "buf @ concat left = concat r" by auto
  with replay show ?thesis by (metis concat.simps(2))
qed

lemma route_http_Forwarded:
  assumes "route_http uni room parse cfg se ce input r = Forwarded i msg replay"
  obtains host where "peek_host_header room parse input = Inr (host, replay)"
    "hosts r (trim_port (request_host uni host)) = Some i"
    "msg = http_message (BaseDomain cfg) (request_host uni host)" "\<not> se" "\<not> ce"
  using assms
  by (auto simp: route_http_def Let_def subscriber_def split: if_splits sum.splits option.splits)

text \<open>
  C19: A public connection never reaches a client that did not ask for it: whichever client
  it is forwarded to has registered the host that the request names, up to letter case and
  port. What is forwarded is exactly the bytes of the connection, and the control message
  says it is http.
\<close>

theorem http_routed_to_owner:
  assumes "registry_ok r" and "route_http uni room parse cfg se ce input r = Forwarded i msg replay"
  shows "\<exists>host seen later. concat input = seen @ later \<and> parse seen = HostIs host \<and>
    trim_port (request_host uni host) \<in> held r i \<and>
    (\<forall>j. trim_port (request_host uni host) \<in> held r j \<longrightarrow> j = i) \<and>
    concat replay = concat input \<and> Action msg = ActionProxy \<and> ForwardedProto msg = HTTP"
proof -
  from assms(2) obtain host where h: "peek_host_header room parse input = Inr (host, replay)"
      "hosts r (trim_port (request_host uni host)) = Some i"
      "msg = http_message (BaseDomain cfg) (request_host uni host)" by (rule route_http_Forwarded)
  from peek_host_header_result [OF h(1)] obtain seen later where
    "concat replay = concat input" "concat input = seen @ later" "parse seen = HostIs host" by blast
  moreover have "trim_port (request_host uni host) \<in> held r j \<longleftrightarrow> j = i" for j
    using registry_okD [OF assms(1)] h(2) by (metis option.inject)
  ultimately show ?thesis using h(3) by auto
qed

lemma sample_peek:
  "peek_host_header (\<lambda>_. 0) (\<lambda>s. if s = [] then Incomplete else HostIs h) [[c]] = Inr (h, [[c]])"
  by (simp add: peek_host_header_def peek_loop.simps)

definition sample_registered :: world where
  "sample_registered = snd (add_tunnels sample_listen sample_config sample_tunnels zero_ID sample_world)"

lemma sample_registered_hosts: "hosts (reg sample_registered) = [''app.example.com'' \<mapsto> zero_ID]"
  by (simp add: sample_registered_def sample_add)

lemma sample_request_host: "request_host id ''App.Example.com:80'' = ''app.example.com''"
  by code_simp

theorem http_routed_to_owner_witness:
  "route_http id (\<lambda>_. 0) (\<lambda>s. if s = [] then Incomplete else HostIs ''App.Example.com:80'') sample_config
     False False [''G''] (reg sample_registered)
     = Forwarded zero_ID (http_message ''example.com'' ''app.example.com'') [''G''] \<and>
   ''app.example.com'' \<in> held (reg sample_registered) zero_ID"
proof -
  let ?p = "\<lambda>s. if s = [] then Incomplete else HostIs ''App.Example.com:80''"
  have plain: "trim_port ''app.example.com'' = ''app.example.com''" by code_simp
  have "route_http id (\<lambda>_. 0) ?p sample_config False False [''G''] (reg sample_registered)
      = Forwarded zero_ID (http_message ''example.com'' ''app.example.com'') [''G'']"
    by (simp add: route_http_def sample_peek sample_request_host subscriber_def
        sample_registered_hosts plain)
  moreover have "registry_ok (reg sample_registered)"
    by (rule registry_okI)
      (auto simp: sample_registered_def sample_add held_def item_keys_def plain)
  ultimately show ?thesis
    using http_routed_to_owner [of "reg sample_registered" id "\<lambda>_. 0" ?p sample_config False False "[''G'']"
        zero_ID "http_message ''example.com'' ''app.example.com''" "[''G'']"]
    by (auto simp: sample_request_host plain split: if_splits)
qed

lemma route_http_name:
  assumes "hosts r (http_full_host (BaseDomain cfg) slug) = Some i"
    and "valid_subdomain_label slug" "routable_domain (BaseDomain cfg)"
    and "peek_host_header room parse input = Inr (host, replay)"
    and "host_value_for (http_full_host (BaseDomain cfg) slug) host"
  shows "route_http uni room parse cfg False False input r =
    Forwarded i \<lparr>Action = ActionProxy, ForwardedHost = slug, ForwardedProto = HTTP, RemoteAddr = []\<rparr> replay"
  using request_host_folds [OF assms(5) full_host_chars(1,3) [OF assms(2,3)]]
    trim_port_full_host [OF assms(2,3)] assms(1,4)
  by (simp add: route_http_def subscriber_def http_message_def)

lemma added_http_route:
  assumes "fresh_listen lsn" and "add_tunnels lsn cfg ts i w = (Added, w')"
    and "(name, Some t) \<in> set ts" and "Protocol t = HTTP" and "routable_domain (BaseDomain cfg)"
    and "peek_host_header room parse input = Inr (host, replay)"
    and "host_value_for (http_full_host (BaseDomain cfg) (Host t)) host"
  shows "route_http uni room parse cfg False False input (reg w') =
    Forwarded i \<lparr>Action = ActionProxy, ForwardedHost = Host t, ForwardedProto = HTTP, RemoteAddr = []\<rparr> replay
    \<and> concat replay = concat input"
proof -
  from add_tunnels_Added [OF assms(1,2)] obtain x where
    x: "registry_set x i (reg w) = Inr (reg w')" "Hosts x = requested_hosts (BaseDomain cfg) ts"
      "\<forall>(n, t') \<in> set ts. \<exists>t. t' = Some t \<and> (is_tcp t \<or> Protocol t = HTTP \<and>
         BaseDomain cfg \<noteq> [] \<and> valid_subdomain_label (Host t))" by blast
  from x(3) assms(3,4) have v: "valid_subdomain_label (Host t)" by auto
  let ?h = "http_full_host (BaseDomain cfg) (Host t)"
  have "?h \<in> set (Hosts x)" unfolding x(2) by (rule requested_hosts_mem [OF assms(3,4)])
  then have "?h \<in> item_keys x"
    using trim_port_full_host [OF v assms(5)] by (force simp: item_keys_def)
  then have "hosts (reg w') ?h = Some i" using registry_set_Inr(3) [OF x(1)] by simp
  from route_http_name [OF this v assms(5,6,7)] peek_host_header_result [OF assms(6)]
  show ?thesis by simp
qed

text \<open>
  C20: An accepted http tunnel is reachable: after \<open>addTunnels\<close>, a request whose Host is
  the tunnel's subdomain under the base domain, in any letter case and with or without a
  port, is forwarded to the client that asked for the tunnel, under the tunnel's own
  subdomain and with all the bytes of the request; the base domain has to be lower case
  and without a port.
\<close>

theorem added_http_tunnel_reachable:
  assumes "fresh_listen lsn" and "add_tunnels lsn cfg ts i w = (Added, w')"
    and "(name, Some t) \<in> set ts" and "Protocol t = HTTP" and "routable_domain (BaseDomain cfg)"
    and "peek_host_header room parse input = Inr (host, replay)"
    and "host_value_for (http_full_host (BaseDomain cfg) (Host t)) host"
  shows "route_http uni room parse cfg False False input (reg w') =
    Forwarded i \<lparr>Action = ActionProxy, ForwardedHost = Host t, ForwardedProto = HTTP, RemoteAddr = []\<rparr> replay
    \<and> concat replay = concat input"
  by (rule added_http_route [OF assms])

lemma sample_domain_routable: "routable_domain ''example.com''"
  by (simp add: routable_domain_def plain_chars_def is_lower_or_caseless_def is_ascii_def char_between_def)

lemma sample_lower: "map ascii_lower ''App.Example.com'' = ''app.example.com''"
  by code_simp

lemma sample_host_value: "host_value_for ''app.example.com'' ''App.Example.com:80''"
  unfolding host_value_for_def
  by (rule exI [of _ "''App.Example.com''"], intro conjI disjI2 exI [of _ "''80''"])
    (simp_all only: sample_lower, simp_all add: is_ascii_def plain_chars_def)

theorem added_http_tunnel_reachable_witness:
  "route_http id (\<lambda>_. 0) (\<lambda>s. if s = [] then Incomplete else HostIs ''App.Example.com:80'') sample_config
     False False [''G''] (reg sample_registered)
     = Forwarded zero_ID \<lparr>Action = ActionProxy, ForwardedHost = ''app'', ForwardedProto = HTTP, RemoteAddr = []\<rparr> [''G'']"
proof -
  have "add_tunnels sample_listen sample_config sample_tunnels zero_ID sample_world = (Added, sample_registered)"
    by (simp add: sample_registered_def sample_add)
  from added_http_tunnel_reachable [OF sample_listen_fresh this, of "''web''"
      "\<lparr>Protocol = HTTP, Host = ''app'', Auth = [], Addr = []\<rparr>" "\<lambda>_. 0"
      "\<lambda>s. if s = [] then Incomplete else HostIs ''App.Example.com:80''" "[''G'']" "''App.Example.com:80''" "[''G'']" id]
  show ?thesis
    using sample_domain_routable sample_host_value by (simp add: sample_tunnels_def sample_peek)
qed

lemma set_trim_port: "set (trim_port s) \<subseteq> set s"
proof (cases "split_host_port s")
  case (Inl e)
  then show ?thesis by (simp add: trim_port_def)
next
  case (Inr hp)
  obtain h p where "hp = (h, p)" by (cases hp)
  with Inr show ?thesis using split_host_port_Inr [of s h p] by (auto simp: trim_port_def Let_def)
qed

lemma ascii_lower_not_upper: "\<not> char_between CHR ''A'' CHR ''Z'' (ascii_lower c)"
proof (cases "char_between CHR ''A'' CHR ''Z'' c")
  case False
  then show ?thesis by (simp add: ascii_lower_def)
next
  case True
  then have n: "65 \<le> (of_char c :: nat)" "(of_char c :: nat) \<le> 90"
    by (auto simp: char_between_def less_eq_char_def)
  then have "(of_char c + 32 :: nat) < 256" by simp
  with True n show ?thesis by (simp add: ascii_lower_def char_between_def less_eq_char_def)
qed

lemma request_key_lower:
  assumes "list_all is_ascii host" "c \<in> set (trim_port (request_host uni host))"
  shows "\<not> char_between CHR ''A'' CHR ''Z'' c"
proof -
  have "\<forall>c \<in> set (trim_port host). is_ascii c"
    using assms(1) set_trim_port [of host] by (auto simp: list_all_iff)
  then have "request_host uni host = map ascii_lower (trim_port host)"
    by (simp add: request_host_def to_lower_def)
  then have "c \<in> set (map ascii_lower (trim_port host))"
    using assms(2) set_trim_port by (metis subsetD)
  then show ?thesis using ascii_lower_not_upper by auto
qed

lemma added_hosts:
  assumes "fresh_listen lsn" "add_tunnels lsn cfg ts i w = (Added, w')" "hosts (reg w) = Map.empty"
    and "hosts (reg w') k = Some j"
  shows "\<exists>slug. valid_subdomain_label slug \<and> k = trim_port (http_full_host (BaseDomain cfg) slug)"
proof -
  from add_tunnels_Added [OF assms(1,2)] obtain x where
    x: "registry_set x i (reg w) = Inr (reg w')" "Hosts x = requested_hosts (BaseDomain cfg) ts"
      "\<forall>(n, t') \<in> set ts. \<exists>t. t' = Some t \<and> (is_tcp t \<or> Protocol t = HTTP \<and>
         BaseDomain cfg \<noteq> [] \<and> valid_subdomain_label (Host t))" by blast
  from assms(3,4) registry_set_Inr(3) [OF x(1), of k] have "k \<in> item_keys x" by (auto split: if_splits)
  then obtain n t' where t: "(n, t') \<in> set ts" "Protocol (the t') = HTTP"
      "k = trim_port (http_full_host (BaseDomain cfg) (Host (the t')))"
    by (auto simp: item_keys_def x(2) requested_hosts_def)
  with x(3) have "valid_subdomain_label (Host (the t'))" by fastforce
  with t(3) show ?thesis by blast
qed

text \<open>
  A base domain with an upper case letter makes every http tunnel unreachable: tunnels
  are accepted and registered under it, but requests are looked up in lower case, so on a
  server with no other tunnels each of them gets the 404 response.
\<close>

theorem upper_case_domain_unreachable:
  assumes "fresh_listen lsn" and "add_tunnels lsn cfg ts i w = (Added, w')" and "hosts (reg w) = Map.empty"
    and "c \<in> set (BaseDomain cfg)" and "char_between CHR ''A'' CHR ''Z'' c" and "plain_chars (BaseDomain cfg)"
    and "peek_host_header room parse input = Inr (host, replay)" and "list_all is_ascii host"
  shows "route_http uni room parse cfg False False input (reg w') = NotFound (request_host uni host)"
proof -
  have "hosts (reg w') (trim_port (request_host uni host)) = None"
  proof (rule ccontr)
    assume "hosts (reg w') (trim_port (request_host uni host)) \<noteq> None"
    then obtain slug where slug: "valid_subdomain_label slug"
        "trim_port (request_host uni host) = trim_port (http_full_host (BaseDomain cfg) slug)"
      using added_hosts [OF assms(1-3)] by blast
    have "plain_chars slug"
      using valid_subdomain_label_chars(2) [OF slug(1)] label_char_plain unfolding plain_chars_def by blast
    then have "plain_chars (http_full_host (BaseDomain cfg) slug)"
      using assms(6) by (simp add: http_full_host_def) (simp add: plain_chars_def)
    with slug(2) assms(4) have "c \<in> set (trim_port (request_host uni host))"
      by (simp add: trim_port_plain_id http_full_host_def)
    with request_key_lower [OF assms(8)] assms(5) show False by blast
  qed
  with assms(7) show ?thesis by (simp add: route_http_def subscriber_def)
qed

lemma trim_suffix_other: "\<lbrakk>c \<in> set suf; c \<notin> set s\<rbrakk> \<Longrightarrow> trim_suffix s suf = s"
  unfolding trim_suffix_def by (metis in_set_dropD)

text \<open>
  A base domain with a port does not round trip: the registry drops the port from
  the names it stores, so a request is forwarded, but the subdomain is not recovered from
  the name it was found under, and the client is asked for the whole name instead of its
  tunnel's subdomain.
\<close>

theorem port_domain_loses_subdomain:
  assumes "fresh_listen lsn" and "add_tunnels lsn cfg ts i w = (Added, w')"
    and "(name, Some t) \<in> set ts" and "Protocol t = HTTP"
    and "BaseDomain cfg = domain @ CHR '':'' # port" and "routable_domain domain" and "plain_chars port"
    and "peek_host_header room parse input = Inr (host, replay)"
    and "host_value_for (http_full_host domain (Host t)) host"
  shows "route_http uni room parse cfg False False input (reg w') =
    Forwarded i \<lparr>Action = ActionProxy, ForwardedHost = http_full_host domain (Host t),
      ForwardedProto = HTTP, RemoteAddr = []\<rparr> replay"
proof -
  from add_tunnels_Added [OF assms(1,2)] obtain x where
    x: "registry_set x i (reg w) = Inr (reg w')" "Hosts x = requested_hosts (BaseDomain cfg) ts"
      "\<forall>(n, t') \<in> set ts. \<exists>t. t' = Some t \<and> (is_tcp t \<or> Protocol t = HTTP \<and>
         BaseDomain cfg \<noteq> [] \<and> valid_subdomain_label (Host t))" by blast
  from x(3) assms(3,4) have v: "valid_subdomain_label (Host t)" by auto
  let ?n = "http_full_host domain (Host t)"
  note n = full_host_chars [OF v assms(6)]
  have full: "http_full_host (BaseDomain cfg) (Host t) = ?n @ CHR '':'' # port"
    by (simp add: assms(5) http_full_host_def)
  have key: "trim_port (http_full_host (BaseDomain cfg) (Host t)) = ?n"
    unfolding full by (rule trim_port_plain [OF n(1) assms(7) n(3)])
  have "http_full_host (BaseDomain cfg) (Host t) \<in> set (Hosts x)"
    unfolding x(2) by (rule requested_hosts_mem [OF assms(3,4)])
  then have "?n \<in> item_keys x" using key by (force simp: item_keys_def)
  then have h: "hosts (reg w') ?n = Some i" using registry_set_Inr(3) [OF x(1)] by simp
  have "http_slug_from_host (BaseDomain cfg) ?n = ?n"
    unfolding http_slug_from_host_def
    by (rule trim_suffix_other [of "CHR '':''"]) (use n(1) in \<open>auto simp: assms(5) plain_chars_def\<close>)
  with h request_host_folds [OF assms(9) n(1,3)] trim_port_plain_id [OF n(1)] assms(8) show ?thesis
    by (simp add: route_http_def subscriber_def http_message_def)
qed

lemma sample_add_under:
  assumes "base \<noteq> []"
  obtains w' where "add_tunnels sample_listen (sample_config\<lparr>BaseDomain := base\<rparr>)
    [(''web'', Some \<lparr>Protocol = HTTP, Host = ''app'', Auth = [], Addr = []\<rparr>)] zero_ID sample_world = (Added, w')"
proof -
  have "fst (add_tunnels sample_listen (sample_config\<lparr>BaseDomain := base\<rparr>)
      [(''web'', Some \<lparr>Protocol = HTTP, Host = ''app'', Auth = [], Addr = []\<rparr>)] zero_ID sample_world) = Added"
    using assms
    by (simp add: add_tunnels_def sample_config_def sample_world_def protocol_names valid_app
        registry_set_def subscribe_def new_registry_def)
  then show ?thesis using that by (metis prod.collapse)
qed

lemma sample_world_no_hosts: "hosts (reg sample_world) = Map.empty"
  by (simp add: sample_world_def subscribe_def new_registry_def)

theorem upper_case_domain_unreachable_witness:
  "\<exists>w'. add_tunnels sample_listen (sample_config\<lparr>BaseDomain := ''Example.com''\<rparr>)
      [(''web'', Some \<lparr>Protocol = HTTP, Host = ''app'', Auth = [], Addr = []\<rparr>)] zero_ID sample_world = (Added, w') \<and>
    route_http id (\<lambda>_. 0) (\<lambda>s. if s = [] then Incomplete else HostIs ''app.Example.com'')
      (sample_config\<lparr>BaseDomain := ''Example.com''\<rparr>) False False [''G''] (reg w') = NotFound ''app.example.com''"
proof -
  obtain w' where w': "add_tunnels sample_listen (sample_config\<lparr>BaseDomain := ''Example.com''\<rparr>)
    [(''web'', Some \<lparr>Protocol = HTTP, Host = ''app'', Auth = [], Addr = []\<rparr>)] zero_ID sample_world = (Added, w')"
    by (rule sample_add_under [of "''Example.com''"]) simp_all
  have "request_host id ''app.Example.com'' = ''app.example.com''" by code_simp
  moreover have "route_http id (\<lambda>_. 0) (\<lambda>s. if s = [] then Incomplete else HostIs ''app.Example.com'')
      (sample_config\<lparr>BaseDomain := ''Example.com''\<rparr>) False False [''G''] (reg w')
      = NotFound (request_host id ''app.Example.com'')"
    by (rule upper_case_domain_unreachable [OF sample_listen_fresh w' sample_world_no_hosts, of "CHR ''E''"])
      (simp_all add: sample_peek char_between_def plain_chars_def is_ascii_def)
  ultimately show ?thesis using w' by metis
qed

theorem port_domain_loses_subdomain_witness:
  "\<exists>w'. add_tunnels sample_listen (sample_config\<lparr>BaseDomain := ''example.com:8443''\<rparr>)
      [(''web'', Some \<lparr>Protocol = HTTP, Host = ''app'', Auth = [], Addr = []\<rparr>)] zero_ID sample_world = (Added, w') \<and>
    route_http id (\<lambda>_. 0) (\<lambda>s. if s = [] then Incomplete else HostIs ''App.Example.com:80'')
      (sample_config\<lparr>BaseDomain := ''example.com:8443''\<rparr>) False False [''G''] (reg w')
      = Forwarded zero_ID \<lparr>Action = ActionProxy, ForwardedHost = ''app.example.com'',
          ForwardedProto = HTTP, RemoteAddr = []\<rparr> [''G'']"
proof -
  obtain w' where w': "add_tunnels sample_listen (sample_config\<lparr>BaseDomain := ''example.com:8443''\<rparr>)
    [(''web'', Some \<lparr>Protocol = HTTP, Host = ''app'', Auth = [], Addr = []\<rparr>)] zero_ID sample_world = (Added, w')"
    by (rule sample_add_under [of "''example.com:8443''"]) simp_all
  have "route_http id (\<lambda>_. 0) (\<lambda>s. if s = [] then Incomplete else HostIs ''App.Example.com:80'')
      (sample_config\<lparr>BaseDomain := ''example.com:8443''\<rparr>) False False [''G''] (reg w')
      = Forwarded zero_ID \<lparr>Action = ActionProxy, ForwardedHost = ''app.example.com'',
          ForwardedProto = HTTP, RemoteAddr = []\<rparr> [''G'']"
    using port_domain_loses_subdomain [OF sample_listen_fresh w', of "''web''"
      "\<lparr>Protocol = HTTP, Host = ''app'', Auth = [], Addr = []\<rparr>" "''example.com''" "''8443''" "\<lambda>_. 0"
      "\<lambda>s. if s = [] then Incomplete else HostIs ''App.Example.com:80''" "[''G'']" "''App.Example.com:80''" "[''G'']" id]
      sample_domain_routable sample_host_value by (simp add: sample_peek plain_chars_def)
  with w' show ?thesis by blast
qed

section \<open>Serving a connection\<close>

text \<open>
  A routed connection is carried to the client that registered the host, on the
  connection pooled for it, by a request whose header reads back as the control message
  for the subdomain and whose body is the connection's bytes; the user gets the client's
  response, and the connection is closed at the end.
\<close>

theorem http_conn_carried:
  assumes "hosts (reg (env p)) (http_full_host (BaseDomain cfg) slug) = Some i"
    and "valid_subdomain_label slug" and "routable_domain (BaseDomain cfg)"
    and "peek_host_header room parse input = Inr (host, replay)"
    and "host_value_for (http_full_host (BaseDomain cfg) slug) host"
    and "conns p (pool_addr i) = Some cp" and "can (client_conn cp)"
    and "\<And>req. do (client_conn cp) req = Inr (answer req)"
  shows "\<exists>req. handle_http_conn uni room parse cfg False False can None do c input p
      = (answer req, close_conn c p) \<and>
    req_url req = pool_url i \<and> concat (req_body req) = concat input \<and>
    read_control_message (req_header req) remote =
      Inr \<lparr>Action = ActionProxy, ForwardedHost = slug, ForwardedProto = HTTP, RemoteAddr = remote\<rparr>"
proof -
  let ?m = "\<lparr>Action = ActionProxy, ForwardedHost = slug, ForwardedProto = HTTP, RemoteAddr = []\<rparr>"
  have "complete_message ?m"
    using valid_subdomain_label_chars(1) [OF assms(2)]
    by (simp add: complete_message_def ActionProxy_def protocol_names)
  with route_http_name [OF assms(1-5)] peek_host_header_result [OF assms(4)] assms(6-8)
  show ?thesis
    by (intro exI [of _ "\<lparr>req_url = pool_url i, req_header = write_to_header ?m Map.empty, req_body = replay\<rparr>"])
      (simp add: handle_http_conn_def proxy_conn_def connect_request_def get_client_conn_def
        read_written_message)
qed

definition sample_connected :: server where
  "sample_connected = \<lparr>conns = [pool_addr zero_ID \<mapsto> \<lparr>conn = 2, client_conn = 11\<rparr>], closed_conns = [],
     env = sample_registered\<rparr>"

theorem http_conn_carried_witness:
  "handle_http_conn id (\<lambda>_. 0) (\<lambda>s. if s = [] then Incomplete else HostIs ''App.Example.com:80'')
     sample_config False False (\<lambda>_. True) None (\<lambda>_ req. Inr [''re:'' @ concat (req_body req)]) 7 [''G''] sample_connected
   = ([''re:G''], close_conn 7 sample_connected)"
proof -
  let ?p = "\<lambda>s. if s = [] then Incomplete else HostIs ''App.Example.com:80''"
  let ?do = "\<lambda>_ req. Inr [''re:'' @ concat (req_body req)]"
  have "\<exists>req :: request. handle_http_conn id (\<lambda>_. 0) ?p sample_config False False (\<lambda>_. True) None ?do 7 [''G'']
      sample_connected = ([''re:'' @ concat (req_body req)], close_conn 7 sample_connected) \<and>
      req_url req = pool_url zero_ID \<and> concat (req_body req) = concat [''G''] \<and>
      read_control_message (req_header req) [] =
        Inr \<lparr>Action = ActionProxy, ForwardedHost = ''app'', ForwardedProto = HTTP, RemoteAddr = []\<rparr>"
    by (rule http_conn_carried [where cp = "\<lparr>conn = 2, client_conn = 11\<rparr>"
        and answer = "\<lambda>req. [''re:'' @ concat (req_body req)]"])
      (simp_all add: sample_connected_def sample_registered_hosts sample_domain_routable
        valid_app sample_peek, rule sample_host_value)
  then show ?thesis by auto
qed

section \<open>Listeners\<close>

lemma accept_loop_correct:
  "accept_loop serve accepts =
     (map serve [c. Accepted c \<leftarrow> takeWhile (\<lambda>a. a \<noteq> AcceptClosed) accepts], AcceptClosed \<in> set accepts)"
  by (induction serve accepts rule: accept_loop.induct) (simp_all add: Let_def)

text \<open>
  A client's listener serves every connection it accepts until it is closed, each
  exactly once, in order and with the listener's own network and address; errors of
  \<open>Accept\<close> in between do not stop it, and it returns only when the listener is closed.
\<close>

theorem server_listen_serves_all:
  "server_listen network addr accepts =
     (map (\<lambda>c. (c, \<lparr>Action = ActionProxy, ForwardedHost = addr, ForwardedProto = network, RemoteAddr = []\<rparr>))
        [c. Accepted c \<leftarrow> takeWhile (\<lambda>a. a \<noteq> AcceptClosed) accepts],
      AcceptClosed \<in> set accepts)"
  by (simp add: server_listen_def accept_loop_correct listen_message_def)

text \<open>
  No listener of the server outlives it: if the http listener cannot be opened,
  \<open>Start\<close> fails with the client listener closed again, and otherwise \<open>Stop\<close> closes both, so
  in either case exactly the listeners from before \<open>NewServer\<close> are open.
\<close>

theorem server_leaves_no_listener:
  assumes "fresh_listen lsn" and "Listener cfg = None" and "new_server_net lsn cfg opened = Inr n"
    and "server_start lsn cfg accepts n = (res, started, n')"
  shows "case res of
      Some (HTTPListenFailed err) \<Rightarrow> net_open n' = opened \<and> started = []
    | _ \<Rightarrow> net_open (server_stop n') = opened"
proof -
  from assms(2,3) obtain l where l: "lsn ''tcp'' (ListenAddr cfg) opened = Inr l"
      "n = \<lparr>listener = Some l, http_listener = None, net_open = insert l opened\<rparr>"
    by (auto simp: new_server_net_def config_listener_def split: sum.splits if_splits)
  have fresh: "l \<notin> opened" using assms(1) l(1) by (auto simp: fresh_listen_def)
  have "h \<notin> insert l opened" if "lsn ''tcp'' (HTTPAddr cfg) (insert l opened) = Inr h" for h
    using assms(1) that by (auto simp: fresh_listen_def)
  with fresh l(2) assms(4) show ?thesis
    by (auto simp: server_start_def start_http_def server_stop_def close_listener_def insert_Diff_if
        split: sum.splits if_splits prod.splits bool.splits option.splits)
qed

theorem server_leaves_no_listener_witness:
  "\<exists>n started n'. new_server_net sample_listen sample_config {} = Inr n \<and>
     server_start sample_listen sample_config [Accepted 1, AcceptClosed] n = (Some ListenerClosed, started, n') \<and>
     net_open n' = {5, 14} \<and> net_open (server_stop n') = {}"
proof -
  let ?n = "\<lparr>listener = Some 5, http_listener = None, net_open = {5}\<rparr>"
  let ?n' = "\<lparr>listener = Some 5, http_listener = Some 14, net_open = {14, 5}\<rparr>"
  have n: "new_server_net sample_listen sample_config {} = Inr ?n"
    by (simp add: new_server_net_def config_listener_def sample_config_def sample_listen_def)
  moreover have s: "server_start sample_listen sample_config [Accepted 1, AcceptClosed] ?n
      = (Some ListenerClosed, [1], ?n')"
    by (simp add: server_start_def start_http_def sample_config_def sample_listen_def eval_nat_numeral)
  moreover have "net_open (server_stop ?n') = {}"
    using server_leaves_no_listener [OF sample_listen_fresh _ n s] by (simp add: sample_config_def)
  ultimately show ?thesis by (intro exI conjI) (assumption | simp add: insert_commute)+
qed

end
