(* ===== verification/Utils.thy ===== *)
theory Utils
  imports HostPort
begin

text \<open>
  The helpers of utils.go and keepalive.go: copying one stream into another, the writer
  that flushes after every write, the permission test for private keys, and the keepalive
  settings. \<open>NormalizeAddress\<close> is in \<^theory_text>\<open>HostPort\<close>.
\<close>

section \<open>Copying a stream\<close>

text \<open>What a reader yields: pieces, then the end of the stream or an error.\<close>

datatype copy_error = Canceled | CopyFailed string

type_synonym source = "string list \<times> copy_error option"

text \<open>
  A writer has a state; a write takes some of the bytes and may report an error.
  \<open>io.Copy\<close> stops at the first error of either side; an error that is not reported with a
  full write is \<open>io.ErrShortWrite\<close>.
\<close>

type_synonym 's writer = "'s \<Rightarrow> string \<Rightarrow> nat \<times> copy_error option \<times> 's"

fun copy_pieces :: "'s writer \<Rightarrow> string list \<Rightarrow> copy_error option \<Rightarrow> nat \<Rightarrow> 's
    \<Rightarrow> nat \<times> copy_error option \<times> 's" where
  "copy_pieces w [] end n s = (n, end, s)"
| "copy_pieces w (p # ps) end n s =
     (case w s p of
        (k, Some err, s') \<Rightarrow> (n + k, Some err, s')
      | (k, None, s') \<Rightarrow>
          if k < length p then (n + k, Some (CopyFailed ''short write''), s')
          else copy_pieces w ps end (n + k) s')"

datatype transfer_log = CopyErrorLine copy_error | TransferredLine nat

text \<open>\<open>transfer\<close>: the writer's state at the end and the lines it logs.\<close>

definition transfer :: "'s writer \<Rightarrow> source \<Rightarrow> 's \<Rightarrow> transfer_log list \<times> 's" where
  "transfer w src s =
     (let (n, err, s') = copy_pieces w (fst src) (snd src) 0 s
      in ((case err of
             Some e \<Rightarrow> if e \<noteq> Canceled then [CopyErrorLine e] else []
           | None \<Rightarrow> []) @ [TransferredLine n], s'))"

text \<open>
  \<open>flushWriter\<close>: the state is the wrapped writer's and what has been flushed to the peer;
  a writer that is not an \<open>http.Flusher\<close> passes its bytes on by itself.
\<close>

definition flush_write :: "bool \<Rightarrow> ('s \<Rightarrow> 's) \<Rightarrow> 's writer \<Rightarrow> 's writer" where
  "flush_write is_flusher flush w s p =
     (let (n, err, s') = w s p in (n, err, if is_flusher then flush s' else s'))"

text \<open>A buffered writer, as the response writer of an HTTP/2 stream is: sent and pending bytes.\<close>

definition buffer_write :: "(string \<times> string) writer" where
  "buffer_write s p = (length p, None, (fst s, snd s @ p))"

definition buffer_flush :: "string \<times> string \<Rightarrow> string \<times> string" where
  "buffer_flush s = (fst s @ snd s, [])"

lemma flush_buffer [simp]:
  "flush_write True buffer_flush buffer_write (sent, pending) p = (length p, None, (sent @ pending @ p, []))"
  by (simp add: flush_write_def buffer_write_def buffer_flush_def)

lemma copy_pieces_flushed:
  "copy_pieces (flush_write True buffer_flush buffer_write) ps end n (sent, [])
     = (n + length (concat ps), end, (sent @ concat ps, []))"
  by (induction ps arbitrary: n sent) simp_all

section \<open>Permissions of private keys\<close>

datatype key_error = StatFailed string | TooOpen "32 word"

unbundle bit_operations_syntax

definition check_private_key_permissions :: "bool \<Rightarrow> (string \<Rightarrow> string + 32 word) \<Rightarrow> string \<Rightarrow> key_error option" where
  "check_private_key_permissions windows stat path =
     (if windows then None
      else case stat path of
        Inl err \<Rightarrow> Some (StatFailed err)
      | Inr mode \<Rightarrow>
          let perm = mode AND 511 in
          if perm AND 63 \<noteq> 0 then Some (TooOpen perm) else None)"

lemma group_other_bits: "(mode AND 511) AND 63 = take_bit 6 (mode :: 32 word)"
proof -
  have "(mode AND 511) AND 63 = mode AND (511 AND 63)" by (simp only: and.assoc)
  also have "(511 AND 63 :: 32 word) = mask 6" by (simp add: mask_eq_exp_minus_1)
  finally show ?thesis by (simp add: take_bit_eq_mask)
qed

lemma take_bit_zero_iff: "take_bit n (w :: 32 word) = 0 \<longleftrightarrow> \<not> (\<exists>k < n. bit w k)"
  using bit_imp_le_length [of w] by (auto simp: bit_eq_iff bit_take_bit_iff)

text \<open>
  A private key passes the permission test exactly if its file can be examined and
  none of the six permission bits of group and other is set, whatever the bits of the owner
  and the file type are; only on Windows is there no test.
\<close>

theorem key_permissions_iff:
  "check_private_key_permissions windows stat path = None \<longleftrightarrow>
     windows \<or> (\<exists>mode. stat path = Inr mode \<and> \<not> (\<exists>k < 6. bit mode k))"
  by (auto simp: check_private_key_permissions_def group_other_bits take_bit_zero_iff Let_def
      split: sum.split)

text \<open>
  With the flushing writer nothing a local service has sent waits in the buffer of the
  response: after each piece, and when the copy ends for any reason, all bytes read so far
  have been passed on, in order and once.
\<close>

theorem flushed_transfer_sends_all:
  "transfer (flush_write True buffer_flush buffer_write) (pieces, end) (sent, []) =
     ((case end of Some (CopyFailed e) \<Rightarrow> [CopyErrorLine (CopyFailed e)] | _ \<Rightarrow> []) @
        [TransferredLine (length (concat pieces))],
      (sent @ concat pieces, []))"
  by (auto simp: transfer_def copy_pieces_flushed split: option.split copy_error.split)

section \<open>Keepalive\<close>

text \<open>Times are in nanoseconds, as in package time.\<close>

definition second :: int where "second = 1000000000"

definition default_timeout :: int where "default_timeout = 10 * second"
definition default_ping_timeout :: int where "default_ping_timeout = second div 2"

definition default_keep_alive_idle_time :: int where "default_keep_alive_idle_time = 5 * second"
definition default_keep_alive_count :: int where "default_keep_alive_count = 8"
definition default_keep_alive_interval :: int where "default_keep_alive_interval = 5 * second"

record keep_alive_config =
  Enable :: bool
  KeepIdle :: int
  KeepInterval :: int
  KeepCount :: int

definition keep_alive :: "(keep_alive_config \<Rightarrow> string option) \<Rightarrow> string option" where
  "keep_alive set_config =
     set_config \<lparr>Enable = True, KeepIdle = default_keep_alive_idle_time,
       KeepInterval = default_keep_alive_interval, KeepCount = default_keep_alive_count\<rparr>"

text \<open>When a peer that answers no probe is given up.\<close>

definition drop_after :: "keep_alive_config \<Rightarrow> int" where
  "drop_after k = KeepIdle k + KeepCount k * KeepInterval k"

lemma keep_alive_drop_after:
  "keep_alive (\<lambda>k. if Enable k \<and> drop_after k = 45 * second then None else Some e) = None"
  by (simp add: keep_alive_def drop_after_def second_def default_keep_alive_idle_time_def
      default_keep_alive_count_def default_keep_alive_interval_def)

end
