(* ===== verification/ServerCmd.thy ===== *)
theory ServerCmd
  imports ServerHttp Utils Paths
begin

text \<open>
  The server command (cmd/server/options.go): the TLS configuration, the list of admitted
  clients, and the order of the steps up to \<open>Start\<close>. Certificate functions and the file
  system are arguments.
\<close>

section \<open>Options and TLS\<close>

record server_options =
  tunnelAddr :: string
  tlsCrt :: string
  tlsKey :: string
  clientCA :: string
  clientIDs :: string
  baseDomain :: string
  httpAddr :: string
  logLevel :: int

definition default_server_options :: server_options where
  "default_server_options =
     \<lparr>tunnelAddr = '':5223'', tlsCrt = ''tls.crt'', tlsKey = ''tls.key'', clientCA = ''ca.crt'',
      clientIDs = [], baseDomain = [], httpAddr = ''127.0.0.1:9000'', logLevel = 1\<rparr>"

record server_crypto =
  is_windows :: bool
  key_stat :: "string \<Rightarrow> string + 32 word"
  key_pair :: "string \<Rightarrow> string \<Rightarrow> string + byte list"
  read_pem :: "string \<Rightarrow> string + string"
  append_pem :: "string \<Rightarrow> bool"

datatype server_tls_error =
    KeyPermissions key_error
  | KeyPairInvalid string
  | NoClientCA
  | ClientCAUnreadable string
  | ClientCAInvalid

record server_tls =
  server_certificate :: "byte list"
  require_client_cert :: bool
  client_cas :: string
  root_cas :: string
  session_tickets_disabled :: bool
  min_version :: string
  cipher_suites :: "string list"
  next_protos :: "string list"

definition server_tls_config :: "server_crypto \<Rightarrow> server_options \<Rightarrow> server_tls_error + server_tls" where
  "server_tls_config e opts =
     (case check_private_key_permissions (is_windows e) (key_stat e) (tlsKey opts) of
        Some err \<Rightarrow> Inl (KeyPermissions err)
      | None \<Rightarrow>
        (case key_pair e (tlsCrt opts) (tlsKey opts) of
           Inl err \<Rightarrow> Inl (KeyPairInvalid err)
         | Inr cert \<Rightarrow>
             if clientCA opts = [] then Inl NoClientCA
             else case read_pem e (clientCA opts) of
               Inl err \<Rightarrow> Inl (ClientCAUnreadable err)
             | Inr pem \<Rightarrow>
                 if \<not> append_pem e pem then Inl ClientCAInvalid
                 else Inr \<lparr>server_certificate = cert, require_client_cert = True, client_cas = pem,
                     root_cas = pem, session_tickets_disabled = True, min_version = ''TLS12'',
                     cipher_suites = [''TLS_ECDHE_ECDSA_WITH_AES_128_GCM_SHA256'',
                       ''TLS_ECDHE_RSA_WITH_AES_128_GCM_SHA256''],
                     next_protos = [''h2'']\<rparr>))"

section \<open>Execute\<close>

datatype server_cmd_error =
    TLSFailed server_tls_error
  | CreateServerFailed start_error
  | EmptyClientID
  | InvalidIdentifier string id_error

text \<open>The loop over the client identifiers, with the registry it fills.\<close>

fun subscribe_clients :: "(string \<Rightarrow> string) \<Rightarrow> string list \<Rightarrow> registry \<Rightarrow> server_cmd_error + registry" where
  "subscribe_clients uni [] r = Inr r"
| "subscribe_clients uni (c # cs) r =
     (if c = [] then Inl EmptyClientID
      else case unmarshal_text uni zero_ID c of
        Inl err \<Rightarrow> Inl (InvalidIdentifier c err)
      | Inr identifier \<Rightarrow> subscribe_clients uni cs (subscribe identifier r))"

definition command_config :: "server_options \<Rightarrow> server_config" where
  "command_config opts =
     \<lparr>ListenAddr = tunnelAddr opts, AutoSubscribe = (clientIDs opts = []), TLSConfig = True,
      Listener = None, BaseDomain = baseDomain opts, HTTPAddr = httpAddr opts\<rparr>"

text \<open>
  \<open>Execute\<close> up to its call of \<open>Start\<close>: the TLS configuration, the server's configuration,
  its listeners and its registry.
\<close>

definition execute_server :: "(string \<Rightarrow> string) \<Rightarrow> server_crypto \<Rightarrow> net_listen \<Rightarrow> server_options
    \<Rightarrow> listener set \<Rightarrow> server_cmd_error + (server_tls \<times> server_config \<times> server_net \<times> registry)" where
  "execute_server uni e lsn opts opened =
     (case server_tls_config e opts of
        Inl err \<Rightarrow> Inl (TLSFailed err)
      | Inr tls \<Rightarrow>
        (case new_server_net lsn (command_config opts) opened of
           Inl err \<Rightarrow> Inl (CreateServerFailed err)
         | Inr net \<Rightarrow>
           (case (if AutoSubscribe (command_config opts) then Inr new_registry
                  else subscribe_clients uni (split_byte CHR '','' (clientIDs opts)) new_registry) of
              Inl err \<Rightarrow> Inl err
            | Inr r \<Rightarrow> Inr (tls, command_config opts, net, r))))"

section \<open>Who is admitted\<close>

lemma is_subscribed_subscribe [simp]:
  "is_subscribed (subscribe i r) j \<longleftrightarrow> j = i \<or> is_subscribed r j"
  by (auto simp: is_subscribed_def subscribe_def split: option.split)

lemma subscribe_clients_Inr:
  "subscribe_clients uni cs r = Inr r' \<Longrightarrow>
     hosts r' = hosts r \<and> list_all (\<lambda>c. c \<noteq> [] \<and> \<not> isl (unmarshal_text uni zero_ID c)) cs \<and>
     (\<forall>i. is_subscribed r' i \<longleftrightarrow> is_subscribed r i \<or> Inr i \<in> unmarshal_text uni zero_ID ` set cs)"
  by (induction uni cs r rule: subscribe_clients.induct)
    (auto split: if_splits sum.splits)

lemma execute_server_registry:
  assumes "execute_server uni e lsn opts opened = Inr (tls, cfg, net, r)"
  shows "cfg = command_config opts \<and> require_client_cert tls \<and> hosts r = Map.empty \<and>
    check_private_key_permissions (is_windows e) (key_stat e) (tlsKey opts) = None \<and>
    (\<forall>i. is_subscribed r i \<longleftrightarrow> clientIDs opts \<noteq> [] \<and>
       Inr i \<in> unmarshal_text uni zero_ID ` set (split_byte CHR '','' (clientIDs opts)))"
proof -
  have tls: "require_client_cert tls" "cfg = command_config opts"
      "check_private_key_permissions (is_windows e) (key_stat e) (tlsKey opts) = None"
    using assms
    by (auto simp: execute_server_def server_tls_config_def
        split: sum.splits option.splits if_splits)
  have new: "hosts new_registry = Map.empty" "\<not> is_subscribed new_registry i" for i
    by (simp_all add: new_registry_def is_subscribed_def)
  show ?thesis
  proof (cases "clientIDs opts = []")
    case True
    with assms have "r = new_registry"
      by (auto simp: execute_server_def command_config_def split: sum.splits)
    with tls new True show ?thesis by simp
  next
    case False
    with assms have "subscribe_clients uni (split_byte CHR '','' (clientIDs opts)) new_registry = Inr r"
      by (auto simp: execute_server_def command_config_def split: sum.splits)
    from subscribe_clients_Inr [OF this] tls new False show ?thesis by simp
  qed
qed

text \<open>
  C32: A server that starts asks every client for a certificate, uses a private key that only
  its owner can access, and admits exactly the right clients: with a list of identifiers
  those whose identifier the list names, in any of the spellings \<open>UnmarshalText\<close> accepts,
  and with an empty list every client with a certificate.
\<close>

theorem server_admits_listed:
  assumes "execute_server uni e lsn opts opened = Inr (tls, cfg, net, r)"
  shows "require_client_cert tls \<and>
    check_private_key_permissions (is_windows e) (key_stat e) (tlsKey opts) = None \<and>
    (AutoSubscribe cfg \<or> is_subscribed r i \<longleftrightarrow>
       clientIDs opts = [] \<or> Inr i \<in> unmarshal_text uni zero_ID ` set (split_byte CHR '','' (clientIDs opts)))"
  using execute_server_registry [OF assms] by (auto simp: command_config_def)

definition sample_crypto :: server_crypto where
  "sample_crypto = \<lparr>is_windows = False, key_stat = (\<lambda>_. Inr 384), key_pair = (\<lambda>_ _. Inr []),
     read_pem = Inr, append_pem = (\<lambda>_. True)\<rparr>"

lemma sample_execute:
  assumes "clientIDs opts \<noteq> []" "clientCA opts \<noteq> []" "tunnelAddr opts \<noteq> []"
    and "subscribe_clients id (split_byte CHR '','' (clientIDs opts)) new_registry = Inr r"
  obtains tls cfg net where "execute_server id sample_crypto sample_listen opts {} = Inr (tls, cfg, net, r)"
proof -
  have "\<exists>tls. server_tls_config sample_crypto opts = Inr tls"
    using assms(2) by (simp add: server_tls_config_def sample_crypto_def check_private_key_permissions_def)
  moreover have "\<exists>net. new_server_net sample_listen (command_config opts) {} = Inr net"
    using assms(3) by (simp add: new_server_net_def config_listener_def command_config_def sample_listen_def)
  ultimately show ?thesis
    using that assms by (auto simp: execute_server_def command_config_def)
qed

lemma id_string_no_comma: "CHR '','' \<notin> set (id_string i)"
proof -
  have "CHR '','' \<notin> set b32_alphabet" by code_simp
  then show ?thesis using id_string_chars [of "CHR '',''" i] by auto
qed

definition listed_options :: server_options where
  "listed_options = default_server_options\<lparr>clientIDs := id_string zero_ID\<rparr>"

lemma listed_split: "split_byte CHR '','' (clientIDs listed_options) = [id_string zero_ID]"
  by (simp add: listed_options_def split_byte_single id_string_no_comma)

lemma listed_execute:
  obtains tls cfg net where "execute_server id sample_crypto sample_listen listed_options {}
    = Inr (tls, cfg, net, subscribe zero_ID new_registry)"
proof -
  have ne: "id_string zero_ID \<noteq> []"
    using id_string_unmarshal [of id zero_ID zero_ID] by (auto simp: unmarshal_text_def trim_byte_def
        to_upper_def untypeoify_def unchunkify_def replace_byte_def remove_byte_def)
  then have "subscribe_clients id (split_byte CHR '','' (clientIDs listed_options)) new_registry
      = Inr (subscribe zero_ID new_registry)"
    unfolding listed_split by (simp add: id_string_unmarshal)
  with ne show ?thesis
    using sample_execute [of listed_options] that
    by (auto simp: listed_options_def default_server_options_def)
qed

theorem server_admits_listed_witness:
  "\<exists>tls cfg net r. execute_server id sample_crypto sample_listen listed_options {} = Inr (tls, cfg, net, r) \<and>
     require_client_cert tls \<and> (AutoSubscribe cfg \<or> is_subscribed r zero_ID)"
proof -
  obtain tls cfg net where x: "execute_server id sample_crypto sample_listen listed_options {}
      = Inr (tls, cfg, net, subscribe zero_ID new_registry)" by (rule listed_execute)
  have "Inr zero_ID \<in> unmarshal_text id zero_ID ` set (split_byte CHR '','' (clientIDs listed_options))"
    unfolding listed_split by (simp add: id_string_unmarshal)
  with server_admits_listed [OF x, of zero_ID] x show ?thesis by blast
qed

end
