(* ===== verification/ClientConfig.thy ===== *)
theory ClientConfig
  imports Proto HostPort Paths "HOL-Library.Multiset"
begin

text \<open>
  The client's configuration file (cmd/client/config.go): defaults, the resolution of the
  certificate paths, and the loop that completes and validates the tunnels. The YAML
  parser is an argument, a function from the file's text and the configuration with the
  defaults to the configuration it fills in. A range over the map of tunnels is a list of
  its entries in the order of the range; a tunnel is a pointer, nil for a YAML null.
  The fields of a configured tunnel carry a \<open>T\<close>, since those of the tunnel that is sent to
  the server have the same names.
\<close>

section \<open>Data\<close>

type_synonym duration = int

definition millisecond :: duration where "millisecond = 1000000"
definition seconds :: "int \<Rightarrow> duration" where "seconds n = n * 1000 * millisecond"

text \<open>A float64, by its IEEE 754 bits; the program only hands it on.\<close>

datatype float64 = Float64 "64 word"

definition DefaultBackoffInterval :: duration where "DefaultBackoffInterval = 500 * millisecond"
definition DefaultBackoffMultiplier :: float64 where
  "DefaultBackoffMultiplier = Float64 0x3FF8000000000000"
definition DefaultBackoffMaxInterval :: duration where "DefaultBackoffMaxInterval = seconds 60"
definition DefaultBackoffMaxTime :: duration where "DefaultBackoffMaxTime = seconds (15 * 60)"

record backoff_config =
  Interval :: duration
  Multiplier :: float64
  MaxInterval :: duration
  MaxTime :: duration

record client_tunnel =
  TProtocol :: string
  TAddr :: string
  TRemoteAddr :: string
  TSubdomain :: string

record client_file =
  ServerAddr :: string
  TLSCrt :: string
  TLSKey :: string
  CACrt :: string
  BackoffOpts :: backoff_config
  Tunnels :: "(string \<times> client_tunnel option) list"

definition resolve_config_path :: "string \<Rightarrow> string \<Rightarrow> string" where
  "resolve_config_path config_file p =
     (if p = [] \<or> is_abs p then p else path_join (path_dir config_file) p)"

section \<open>Completing a tunnel\<close>

datatype tunnel_error =
    AddrMissing
  | AddrInvalid addr_error
  | RemoteAddrInvalid addr_error
  | SubdomainInvalid bool string
  | RemoteAddrNotSupported

definition complete_tcp :: "client_tunnel \<Rightarrow> tunnel_error + client_tunnel" where
  "complete_tcp t =
     (if TAddr t = [] then Inl AddrMissing
      else case normalize_address (TAddr t) of
        Inl err \<Rightarrow> Inl (AddrInvalid err)
      | Inr addr \<Rightarrow>
          let t = t\<lparr>TAddr := addr\<rparr> in
          case (if TRemoteAddr t = []
                then (case split_host_port (TAddr t) of
                        Inl err \<Rightarrow> Inl (AddrInvalid err)
                      | Inr (_, port) \<Rightarrow> Inr (''0.0.0.0:'' @ port))
                else Inr (TRemoteAddr t)) of
            Inl err \<Rightarrow> Inl err
          | Inr remote \<Rightarrow>
              (case normalize_address remote of
                 Inl err \<Rightarrow> Inl (RemoteAddrInvalid err)
               | Inr remote \<Rightarrow> Inr (t\<lparr>TRemoteAddr := remote\<rparr>)))"

definition complete_http :: "client_tunnel \<Rightarrow> string \<Rightarrow> tunnel_error + client_tunnel" where
  "complete_http t name =
     (if TAddr t = [] then Inl AddrMissing
      else case normalize_address (TAddr t) of
        Inl err \<Rightarrow> Inl (AddrInvalid err)
      | Inr addr \<Rightarrow>
          let t = t\<lparr>TAddr := addr\<rparr>;
              defaulted = (TSubdomain t = []);
              t = (if defaulted then t\<lparr>TSubdomain := name\<rparr> else t)
          in if \<not> valid_subdomain_label (TSubdomain t) then Inl (SubdomainInvalid defaulted (TSubdomain t))
             else if TRemoteAddr t \<noteq> [] then Inl RemoteAddrNotSupported
             else Inr t)"

section \<open>Loading\<close>

datatype config_error =
    ReadFailed string
  | ParseFailed string
  | ServerAddrMissing
  | ServerAddrInvalid addr_error
  | TunnelInvalid string tunnel_error
  | SubdomainTwice string string string
  | InvalidProtocol string string

datatype 'a loaded = LoadError config_error | LoadPanic | Loaded 'a

fun load_tunnels :: "(string \<times> client_tunnel option) list \<Rightarrow> (string \<rightharpoonup> string)
    \<Rightarrow> (string \<times> client_tunnel option) list loaded" where
  "load_tunnels [] subdomains = Loaded []"
| "load_tunnels ((name, None) # ts) subdomains = LoadPanic"
| "load_tunnels ((name, Some t) # ts) subdomains =
     (if TProtocol t = TCP \<or> TProtocol t = TCP4 \<or> TProtocol t = TCP6 then
        (case complete_tcp t of
           Inl err \<Rightarrow> LoadError (TunnelInvalid name err)
         | Inr t \<Rightarrow>
             (case load_tunnels ts subdomains of
                Loaded ts \<Rightarrow> Loaded ((name, Some t) # ts) | r \<Rightarrow> r))
      else if TProtocol t = HTTP then
        (case complete_http t name of
           Inl err \<Rightarrow> LoadError (TunnelInvalid name err)
         | Inr t \<Rightarrow>
             (case subdomains (TSubdomain t) of
                Some other \<Rightarrow> LoadError (SubdomainTwice other name (TSubdomain t))
              | None \<Rightarrow>
                  (case load_tunnels ts (subdomains(TSubdomain t \<mapsto> name)) of
                     Loaded ts \<Rightarrow> Loaded ((name, Some t) # ts) | r \<Rightarrow> r)))
      else LoadError (InvalidProtocol name (TProtocol t)))"

definition default_client_file :: client_file where
  "default_client_file =
     \<lparr>ServerAddr = [], TLSCrt = [], TLSKey = [], CACrt = [],
      BackoffOpts = \<lparr>Interval = DefaultBackoffInterval, Multiplier = DefaultBackoffMultiplier,
        MaxInterval = DefaultBackoffMaxInterval, MaxTime = DefaultBackoffMaxTime\<rparr>,
      Tunnels = []\<rparr>"

definition load_client_config :: "(string \<Rightarrow> string + string) \<Rightarrow> (string \<Rightarrow> client_file \<Rightarrow> string + client_file)
    \<Rightarrow> string \<Rightarrow> client_file loaded" where
  "load_client_config read_file unmarshal file =
     (case read_file file of
        Inl err \<Rightarrow> LoadError (ReadFailed err)
      | Inr buf \<Rightarrow>
          (case unmarshal buf default_client_file of
             Inl err \<Rightarrow> LoadError (ParseFailed err)
           | Inr c \<Rightarrow>
               let c = c\<lparr>TLSCrt := resolve_config_path file (TLSCrt c),
                         TLSKey := resolve_config_path file (TLSKey c),
                         CACrt := resolve_config_path file (CACrt c)\<rparr>
               in if ServerAddr c = [] then LoadError ServerAddrMissing
                  else case normalize_address (ServerAddr c) of
                    Inl err \<Rightarrow> LoadError (ServerAddrInvalid err)
                  | Inr addr \<Rightarrow>
                      (case load_tunnels (Tunnels c) Map.empty of
                         LoadError e \<Rightarrow> LoadError e
                       | LoadPanic \<Rightarrow> LoadPanic
                       | Loaded ts \<Rightarrow> Loaded (c\<lparr>ServerAddr := addr, Tunnels := ts\<rparr>))))"

section \<open>What loading establishes\<close>

definition tcp_protocol :: "string \<Rightarrow> bool" where
  "tcp_protocol p \<longleftrightarrow> p = TCP \<or> p = TCP4 \<or> p = TCP6"

lemma HTTP_not_tcp_protocol [simp]: "\<not> tcp_protocol HTTP"
  by (simp add: tcp_protocol_def protocol_names)

text \<open>The specification of one entry: what it is completed to, if it is valid on its own.\<close>

definition complete_entry :: "string \<times> client_tunnel option \<Rightarrow> (string \<times> client_tunnel option) option" where
  "complete_entry e =
     (case e of
        (name, Some t) \<Rightarrow>
          (case (if tcp_protocol (TProtocol t) then complete_tcp t
                 else if TProtocol t = HTTP then complete_http t name else Inl AddrMissing) of
             Inl _ \<Rightarrow> None
           | Inr t \<Rightarrow> Some (name, Some t))
      | (_, None) \<Rightarrow> None)"

definition entry_subdomains :: "string \<times> client_tunnel option \<Rightarrow> string list" where
  "entry_subdomains e =
     (case e of (_, Some t) \<Rightarrow> if TProtocol t = HTTP then [TSubdomain t] else [] | _ \<Rightarrow> [])"

definition used_subdomains :: "(string \<times> client_tunnel option) list \<Rightarrow> string list" where
  "used_subdomains ts = concat (map entry_subdomains ts)"

lemma used_subdomains_simps [simp]:
  "used_subdomains [] = []" "used_subdomains (e # ts) = entry_subdomains e @ used_subdomains ts"
  by (simp_all add: used_subdomains_def)

lemma complete_protocol:
  "complete_tcp t = Inr t' \<Longrightarrow> TProtocol t' = TProtocol t"
  "complete_http t name = Inr t' \<Longrightarrow> TProtocol t' = TProtocol t"
  by (auto simp: complete_tcp_def complete_http_def Let_def split: if_splits sum.splits prod.splits)

lemma complete_entry_simps [simp]:
  "complete_entry (name, None) = None"
  "tcp_protocol (TProtocol t) \<Longrightarrow> complete_entry (name, Some t) =
     (case complete_tcp t of Inl _ \<Rightarrow> None | Inr t \<Rightarrow> Some (name, Some t))"
  "TProtocol t = HTTP \<Longrightarrow> complete_entry (name, Some t) =
     (case complete_http t name of Inl _ \<Rightarrow> None | Inr t \<Rightarrow> Some (name, Some t))"
  "\<lbrakk>\<not> tcp_protocol (TProtocol t); TProtocol t \<noteq> HTTP\<rbrakk> \<Longrightarrow> complete_entry (name, Some t) = None"
  by (auto simp: complete_entry_def)

lemma entry_subdomains_simps [simp]:
  "TProtocol t = HTTP \<Longrightarrow> entry_subdomains (name, Some t) = [TSubdomain t]"
  "tcp_protocol (TProtocol t) \<Longrightarrow> entry_subdomains (name, Some t) = []"
  by (auto simp: entry_subdomains_def)

lemma loaded_case:
  "(case r of Loaded ts \<Rightarrow> Loaded (e # ts) | r \<Rightarrow> r) = Loaded ts' \<longleftrightarrow>
     (\<exists>us. r = Loaded us \<and> ts' = e # us)"
  by (cases r) auto

lemma load_tunnels_Loaded_iff:
  "load_tunnels ts m = Loaded ts' \<longleftrightarrow>
     map complete_entry ts = map Some ts' \<and> distinct (used_subdomains ts') \<and>
     set (used_subdomains ts') \<inter> dom m = {}"
proof (induction ts m arbitrary: ts' rule: load_tunnels.induct)
  case (1 m)
  then show ?case by auto
next
  case (2 name ts m)
  then show ?case by auto
next
  case (3 name t ts m)
  consider (tcp) "tcp_protocol (TProtocol t)" | (http) "TProtocol t = HTTP" "\<not> tcp_protocol (TProtocol t)"
    | (other) "TProtocol t \<noteq> HTTP" "\<not> tcp_protocol (TProtocol t)" by blast
  then show ?case
  proof cases
    case tcp
    show ?thesis
    proof (cases "complete_tcp t")
      case (Inl e)
      with tcp show ?thesis by (auto simp: tcp_protocol_def [symmetric])
    next
      case (Inr t1)
      with tcp have "tcp_protocol (TProtocol t1)" by (simp add: complete_protocol(1))
      with Inr tcp 3(1) [OF _ Inr] show ?thesis
        by (auto simp: tcp_protocol_def [symmetric] loaded_case)
    qed
  next
    case http
    show ?thesis
    proof (cases "complete_http t name")
      case (Inl e)
      with http show ?thesis by (auto simp: tcp_protocol_def [symmetric])
    next
      case (Inr t1)
      with http have t1: "TProtocol t1 = HTTP" by (simp add: complete_protocol(2))
      show ?thesis
      proof (cases "m (TSubdomain t1)")
        case (Some other)
        with Inr http t1 show ?thesis by (auto simp: tcp_protocol_def [symmetric])
      next
        case None
        have "load_tunnels ts (m(TSubdomain t1 \<mapsto> name)) = Loaded us \<longleftrightarrow>
            map complete_entry ts = map Some us \<and> distinct (used_subdomains us) \<and>
            set (used_subdomains us) \<inter> dom (m(TSubdomain t1 \<mapsto> name)) = {}" for us
          by (rule 3(2) [OF _ http(1) Inr None]) (use http in \<open>simp add: tcp_protocol_def\<close>)
        with Inr None http t1 show ?thesis
          by (auto simp: tcp_protocol_def [symmetric] loaded_case disjoint_iff domIff)
      qed
    qed
  next
    case other
    then show ?thesis by (auto simp: tcp_protocol_def [symmetric])
  qed
qed

text \<open>
  What \<open>NormalizeAddress\<close> returns is a host and a port joined with a colon. This need not be a
  well-formed address: \<open>normal_address\<close> says that it can be split again into a host and a port
  that are both there, and \<open>loses_form\<close> which configured addresses lead to something else, those
  of an IPv6 host, whose brackets are dropped, and those with an empty port.
\<close>

definition joined_address :: "string \<Rightarrow> bool" where
  "joined_address a \<longleftrightarrow> (\<exists>h p. a = h @ CHR '':'' # p \<and> h \<noteq> [] \<and> CHR ''['' \<notin> set h \<and> plain_chars p)"

definition normal_address :: "string \<Rightarrow> bool" where
  "normal_address a \<longleftrightarrow> (case split_host_port a of Inl _ \<Rightarrow> False | Inr (h, p) \<Rightarrow> h \<noteq> [] \<and> p \<noteq> [])"

definition loses_form :: "string \<Rightarrow> bool" where
  "loses_form s \<longleftrightarrow> (case split_host_port s of Inl _ \<Rightarrow> False | Inr (h, p) \<Rightarrow> CHR '':'' \<in> set h \<or> p = [])"

lemma joined_addressI: "normalize_address s = Inr a \<Longrightarrow> joined_address a"
  unfolding joined_address_def by (metis normalize_address_Inr)

lemma split_joined_colons:
  assumes "CHR '':'' \<in> set h" "CHR ''['' \<notin> set h" "plain_chars p"
  shows "split_host_port (h @ CHR '':'' # p) = Inl (TooManyColons (h @ CHR '':'' # p))"
proof -
  have "last_index_byte CHR '':'' (h @ CHR '':'' # p) = Some (length h)"
    using assms(3) by (simp add: last_index_byte_append plain_chars_def)
  moreover have "(h @ CHR '':'' # p) ! 0 \<noteq> CHR ''[''" using assms(1,2) by (cases h) auto
  ultimately show ?thesis using assms(1) by (simp add: split_host_port_def)
qed

lemma normalize_address_normal:
  assumes "normalize_address s = Inr a"
  shows "normal_address a \<longleftrightarrow> \<not> loses_form s"
proof (cases "atoi s")
  case (Some n)
  then have "a = ''127.0.0.1'' @ CHR '':'' # s" "plain_chars s" "s \<noteq> []"
    using normalize_address_number [OF Some] assms atoi_chars [OF Some] by (auto simp: atoi_def)
  moreover have "split_host_port s = Inl (MissingPort s)"
    using \<open>plain_chars s\<close> by (simp add: split_host_port_no_colon plain_chars_def)
  ultimately show ?thesis
    using split_host_port_plain [OF plain_localhost, of s] by (simp add: normal_address_def loses_form_def)
next
  case None
  with assms obtain h p where hp: "split_host_port s = Inr (h, p)"
      "a = (if h = [] then ''127.0.0.1'' else h) @ CHR '':'' # p"
    by (auto simp: normalize_address_def Let_def split: sum.splits prod.splits)
  note shape = split_host_port_Inr [OF hp(1)]
  show ?thesis
  proof (cases "CHR '':'' \<in> set h")
    case True
    then have "a = h @ CHR '':'' # p" using hp(2) by auto
    with split_joined_colons [OF True, of p] shape hp(1) True show ?thesis
      by (simp add: normal_address_def loses_form_def)
  next
    case False
    let ?h = "if h = [] then ''127.0.0.1'' else h"
    have "plain_chars ?h" using False shape by (simp add: plain_chars_def)
    then have "split_host_port a = Inr (?h, p)" unfolding hp(2) using shape by (intro split_host_port_plain) simp_all
    with hp(1) False show ?thesis by (simp add: normal_address_def loses_form_def)
  qed
qed

definition tunnel_ok :: "client_tunnel \<Rightarrow> bool" where
  "tunnel_ok t \<longleftrightarrow> joined_address (TAddr t) \<and>
     (if TProtocol t = HTTP then valid_subdomain_label (TSubdomain t) \<and> TRemoteAddr t = []
      else tcp_protocol (TProtocol t) \<and> joined_address (TRemoteAddr t))"

lemma complete_tcp_ok:
  "complete_tcp t = Inr t' \<Longrightarrow> joined_address (TAddr t') \<and> joined_address (TRemoteAddr t')"
  by (auto simp: complete_tcp_def Let_def split: if_splits sum.splits prod.splits intro: joined_addressI)

lemma complete_http_ok:
  "complete_http t name = Inr t' \<Longrightarrow>
     joined_address (TAddr t') \<and> valid_subdomain_label (TSubdomain t') \<and> TRemoteAddr t' = []"
  by (auto simp: complete_http_def Let_def split: if_splits sum.splits intro: joined_addressI)

text \<open>What a loaded tunnel has to do with the one the user wrote under this name.\<close>

definition completes :: "string \<Rightarrow> client_tunnel \<Rightarrow> client_tunnel \<Rightarrow> bool" where
  "completes name t0 t \<longleftrightarrow> TProtocol t = TProtocol t0 \<and>
     (normal_address (TAddr t) \<longleftrightarrow> \<not> loses_form (TAddr t0)) \<and>
     (if TProtocol t0 = HTTP
      then valid_subdomain_label (TSubdomain t) \<and>
        TSubdomain t = (if TSubdomain t0 = [] then name else TSubdomain t0) \<and>
        TRemoteAddr t0 = [] \<and> TRemoteAddr t = []
      else tcp_protocol (TProtocol t0) \<and>
        (if TRemoteAddr t0 = []
         then (case split_host_port (TAddr t) of Inl _ \<Rightarrow> False | Inr (_, port) \<Rightarrow> TRemoteAddr t = ''0.0.0.0:'' @ port)
         else normal_address (TRemoteAddr t) \<longleftrightarrow> \<not> loses_form (TRemoteAddr t0)))"

lemma completes_tcp:
  assumes "complete_tcp t0 = Inr t" "tcp_protocol (TProtocol t0)"
  shows "completes name t0 t"
proof -
  from assms(1) obtain addr where addr: "normalize_address (TAddr t0) = Inr addr" "TAddr t = addr"
    by (auto simp: complete_tcp_def Let_def split: if_splits sum.splits prod.splits)
  have "TProtocol t0 \<noteq> HTTP" using assms(2) by auto
  moreover have "\<exists>h port. split_host_port (TAddr t) = Inr (h, port) \<and> TRemoteAddr t = ''0.0.0.0:'' @ port"
    if "TRemoteAddr t0 = []"
  proof -
    from assms(1) that addr obtain h port remote where port: "split_host_port addr = Inr (h, port)"
        "normalize_address (''0.0.0.0:'' @ port) = Inr remote" "TRemoteAddr t = remote"
      by (auto simp: complete_tcp_def Let_def split: if_splits sum.splits prod.splits)
    have "normalize_address (''0.0.0.0'' @ CHR '':'' # port) = Inr (''0.0.0.0:'' @ port)"
      using split_host_port_Inr [OF port(1)] by (subst normalize_address_plain) (simp_all add: plain_chars_def)
    with port addr show ?thesis by simp
  qed
  moreover have "normalize_address (TRemoteAddr t0) = Inr (TRemoteAddr t)" if "TRemoteAddr t0 \<noteq> []"
    using assms(1) that by (auto simp: complete_tcp_def Let_def split: if_splits sum.splits)
  ultimately show ?thesis
    using assms(2) complete_protocol(1) [OF assms(1)] normalize_address_normal [OF addr(1)] addr(2)
      normalize_address_normal [of "TRemoteAddr t0" "TRemoteAddr t"]
    by (auto simp: completes_def)
qed

lemma completes_http:
  assumes "complete_http t0 name = Inr t" "TProtocol t0 = HTTP"
  shows "completes name t0 t"
proof -
  from assms(1) have "normalize_address (TAddr t0) = Inr (TAddr t)" "valid_subdomain_label (TSubdomain t)"
      "TSubdomain t = (if TSubdomain t0 = [] then name else TSubdomain t0)" "TRemoteAddr t0 = []" "TRemoteAddr t = []"
    by (auto simp: complete_http_def Let_def split: if_splits sum.splits)
  with assms(2) complete_protocol(2) [OF assms(1)] normalize_address_normal show ?thesis
    by (simp add: completes_def)
qed

definition entry_completes :: "string \<times> client_tunnel option \<Rightarrow> string \<times> client_tunnel option \<Rightarrow> bool" where
  "entry_completes e e' \<longleftrightarrow> fst e' = fst e \<and>
     (case (snd e, snd e') of (Some t0, Some t) \<Rightarrow> completes (fst e) t0 t | _ \<Rightarrow> False)"

lemma complete_entry_completes: "complete_entry e = Some e' \<Longrightarrow> entry_completes e e'"
  using completes_tcp completes_http
  by (auto simp: entry_completes_def complete_entry_def split: prod.splits option.splits sum.splits if_splits)

lemma complete_entry_ok:
  assumes "complete_entry e = Some (name, u)"
  obtains t where "u = Some t" "tunnel_ok t"
proof -
  from assms obtain t0 where e: "e = (name, Some t0)"
    by (auto simp: complete_entry_def split: prod.splits option.splits sum.splits)
  show ?thesis
  proof (cases "tcp_protocol (TProtocol t0)")
    case True
    with assms e obtain t where t: "u = Some t" "complete_tcp t0 = Inr t" by (auto split: sum.splits)
    with True have "tcp_protocol (TProtocol t)" "TProtocol t \<noteq> HTTP"
      by (auto simp: complete_protocol(1) dest: complete_protocol(1))
    with t complete_tcp_ok [OF t(2)] that show ?thesis by (simp add: tunnel_ok_def)
  next
    case False
    with assms e have h: "TProtocol t0 = HTTP" by (cases "TProtocol t0 = HTTP") auto
    with assms e obtain t where t: "u = Some t" "complete_http t0 name = Inr t" by (auto split: sum.splits)
    with h have "TProtocol t = HTTP" by (simp add: complete_protocol(2))
    with t complete_http_ok [OF t(2)] that show ?thesis by (simp add: tunnel_ok_def)
  qed
qed

lemma loaded_tunnels:
  assumes "load_tunnels ts Map.empty = Loaded ts'"
  shows "map fst ts' = map fst ts" "\<forall>(name, u) \<in> set ts'. \<exists>t. u = Some t \<and> tunnel_ok t"
    "distinct (used_subdomains ts')"
proof -
  have m: "map complete_entry ts = map Some ts'" and d: "distinct (used_subdomains ts')"
    using assms by (simp_all add: load_tunnels_Loaded_iff)
  show "distinct (used_subdomains ts')" by (rule d)
  have fst: "complete_entry e = Some e' \<Longrightarrow> fst e' = fst e" for e e'
    by (auto simp: complete_entry_def split: prod.splits option.splits sum.splits)
  from m show "map fst ts' = map fst ts"
  proof (induction ts arbitrary: ts')
    case Nil
    then show ?case by simp
  next
    case (Cons e es)
    then show ?case using fst by (cases ts') auto
  qed
  show "\<forall>(name, u) \<in> set ts'. \<exists>t. u = Some t \<and> tunnel_ok t"
  proof clarify
    fix name u
    assume "(name, u) \<in> set ts'"
    then have "Some (name, u) \<in> set (map complete_entry ts)" unfolding m by simp
    then obtain e where "complete_entry e = Some (name, u)" by auto
    then show "\<exists>t. u = Some t \<and> tunnel_ok t" by (metis complete_entry_ok)
  qed
qed

lemma load_tunnels_None:
  assumes "\<And>ts'. load_tunnels ts Map.empty \<noteq> Loaded ts'"
  shows "\<not> (\<exists>ts'. map complete_entry ts = map Some ts' \<and> distinct (used_subdomains ts'))"
  using assms by (simp add: load_tunnels_Loaded_iff)

text \<open>
  C17: A configuration that loads has each of its tunnels completed, under its own name: a local
  address with a host and a port, and for a tcp tunnel a public one (all interfaces with the
  local port if none is given); for an http tunnel a DNS label, by default its name, that no
  other tunnel of the file uses. The addresses are well formed, with two exceptions in what the
  user wrote: an IPv6 host, and an empty port. A file whose tunnels are each valid and use
  different subdomains does load.
\<close>

theorem loaded_tunnels_usable:
  "(case load_tunnels ts Map.empty of
      Loaded ts' \<Rightarrow> distinct (used_subdomains ts') \<and> map complete_entry ts = map Some ts' \<and>
        list_all2 entry_completes ts ts'
    | _ \<Rightarrow> \<not> (\<exists>ts'. map complete_entry ts = map Some ts' \<and> distinct (used_subdomains ts')))"
proof (cases "load_tunnels ts Map.empty")
  case (Loaded ts')
  have m: "map complete_entry ts = map Some ts'" using Loaded by (simp add: load_tunnels_Loaded_iff)
  have "list_all2 entry_completes ts ts'"
  proof (rule list_all2_all_nthI)
    show len: "length ts = length ts'" using arg_cong [OF m, of length] by simp
    fix n assume "n < length ts"
    then have "complete_entry (ts ! n) = Some (ts' ! n)" using arg_cong [OF m, of "\<lambda>xs. xs ! n"] len by simp
    then show "entry_completes (ts ! n) (ts' ! n)" by (rule complete_entry_completes)
  qed
  then show ?thesis unfolding Loaded using loaded_tunnels(3) [OF Loaded] m by simp
next
  case (LoadError e)
  then show ?thesis using load_tunnels_None [of ts] by simp
next
  case LoadPanic
  then show ?thesis using load_tunnels_None [of ts] by simp
qed

lemma mset_used_subdomains:
  "mset (used_subdomains ts) = (\<Sum>e \<in># mset ts. mset (entry_subdomains e))"
  by (induction ts) simp_all

text \<open>
  C31: Whether a configuration loads, and what it loads to, does not depend on the order in
  which Go ranges over the map of tunnels (which error is reported may).
\<close>

theorem load_order_irrelevant:
  assumes "mset us = mset ts" and "load_tunnels ts Map.empty = Loaded ts'"
  shows "\<exists>us'. load_tunnels us Map.empty = Loaded us' \<and> mset us' = mset ts'"
proof -
  have m: "map complete_entry ts = map Some ts'" and d: "distinct (used_subdomains ts')"
    using assms(2) by (simp_all add: load_tunnels_Loaded_iff)
  let ?us = "map (the \<circ> complete_entry) us"
  have "complete_entry e \<noteq> None" if "e \<in> set us" for e
  proof -
    have "complete_entry e \<in> set (map complete_entry ts)" using that assms(1) mset_eq_setD by fastforce
    then show ?thesis unfolding m by auto
  qed
  then have us: "map complete_entry us = map Some ?us" by auto
  have "mset (map complete_entry us) = mset (map complete_entry ts)" using assms(1) by simp
  then have "image_mset Some (mset ?us) = image_mset Some (mset ts')" by (simp only: us m mset_map)
  then have "image_mset the (image_mset Some (mset ?us)) = image_mset the (image_mset Some (mset ts'))"
    by (rule arg_cong)
  then have eq: "mset ?us = mset ts'" by (simp only: multiset.map_comp comp_def option.sel multiset.map_ident)
  then have "mset (used_subdomains ?us) = mset (used_subdomains ts')"
    unfolding mset_used_subdomains by (rule arg_cong)
  with d have "distinct (used_subdomains ?us)" by (metis mset_eq_imp_distinct_iff)
  with us eq show ?thesis by (intro exI [of _ ?us]) (simp add: load_tunnels_Loaded_iff)
qed

definition web_entry :: "string \<times> client_tunnel option" where
  "web_entry = (''web'', Some \<lparr>TProtocol = HTTP, TAddr = ''8080'', TRemoteAddr = [], TSubdomain = []\<rparr>)"

definition ssh_entry :: "string \<times> client_tunnel option" where
  "ssh_entry = (''ssh'', Some \<lparr>TProtocol = TCP, TAddr = ''10.0.0.5:22'', TRemoteAddr = [], TSubdomain = []\<rparr>)"

definition web_loaded :: "string \<times> client_tunnel option" where
  "web_loaded = (''web'', Some \<lparr>TProtocol = HTTP, TAddr = ''127.0.0.1:8080'', TRemoteAddr = [], TSubdomain = ''web''\<rparr>)"

definition ssh_loaded :: "string \<times> client_tunnel option" where
  "ssh_loaded = (''ssh'', Some \<lparr>TProtocol = TCP, TAddr = ''10.0.0.5:22'', TRemoteAddr = ''0.0.0.0:22'', TSubdomain = []\<rparr>)"

lemma valid_web: "valid_subdomain_label ''web''"
  by code_simp

lemma sample_normal:
  "normalize_address ''8080'' = Inr ''127.0.0.1:8080''"
  "normalize_address ''10.0.0.5:22'' = Inr ''10.0.0.5:22''"
  "normalize_address ''0.0.0.0:22'' = Inr ''0.0.0.0:22''"
  "split_host_port ''10.0.0.5:22'' = Inr (''10.0.0.5'', ''22'')"
proof -
  have "atoi ''8080'' = Some 8080"
    by (simp add: atoi_def is_digit_def char_between_def decimal_value_def digit_value_def)
  then show "normalize_address ''8080'' = Inr ''127.0.0.1:8080''"
    using normalize_address_number [of "''8080''"] by simp
  show "normalize_address ''10.0.0.5:22'' = Inr ''10.0.0.5:22''"
    using normalize_address_plain [of "''10.0.0.5''" "''22''"] by (simp add: plain_chars_def)
  show "normalize_address ''0.0.0.0:22'' = Inr ''0.0.0.0:22''"
    using normalize_address_plain [of "''0.0.0.0''" "''22''"] by (simp add: plain_chars_def)
  show "split_host_port ''10.0.0.5:22'' = Inr (''10.0.0.5'', ''22'')"
    using split_host_port_plain [of "''10.0.0.5''" "''22''"] by (simp add: plain_chars_def)
qed

lemma sample_loaded: "load_tunnels [web_entry, ssh_entry] Map.empty = Loaded [web_loaded, ssh_loaded]"
proof -
  have "complete_entry web_entry = Some web_loaded" "complete_entry ssh_entry = Some ssh_loaded"
    by (simp_all add: web_entry_def web_loaded_def ssh_entry_def ssh_loaded_def complete_entry_def
        tcp_protocol_def protocol_names complete_tcp_def complete_http_def sample_normal valid_web)
  moreover have "used_subdomains [web_loaded, ssh_loaded] = [''web'']"
    by (simp add: entry_subdomains_def web_loaded_def ssh_loaded_def protocol_names)
  ultimately show ?thesis by (simp only: load_tunnels_Loaded_iff) simp
qed

theorem load_order_irrelevant_witness:
  "load_tunnels [web_entry, ssh_entry] Map.empty = Loaded [web_loaded, ssh_loaded] \<and>
   (\<exists>us. load_tunnels [ssh_entry, web_entry] Map.empty = Loaded us \<and> mset us = mset [web_loaded, ssh_loaded])"
  using load_order_irrelevant [OF _ sample_loaded, of "[ssh_entry, web_entry]"] sample_loaded
  by (simp add: add_mset_commute)

section \<open>Addresses of IPv6 hosts\<close>

text \<open>
  \<open>NormalizeAddress\<close> drops the brackets of an IPv6 host, and what it returns is not an
  address any more: a tcp tunnel to such a local address without a remote address is
  refused with an error about an address the user did not write, and an http tunnel to it
  loads with a target that cannot be split into host and port.
\<close>

theorem ipv6_local_address:
  assumes "CHR '':'' \<in> set h" "CHR ''['' \<notin> set h" "CHR '']'' \<notin> set h" "plain_chars port"
    and "valid_subdomain_label label"
  shows "normalize_address (CHR ''['' # h @ CHR '']'' # CHR '':'' # port) = Inr (h @ CHR '':'' # port) \<and>
    complete_tcp \<lparr>TProtocol = TCP, TAddr = CHR ''['' # h @ CHR '']'' # CHR '':'' # port,
        TRemoteAddr = [], TSubdomain = []\<rparr>
      = Inl (AddrInvalid (TooManyColons (h @ CHR '':'' # port))) \<and>
    complete_http \<lparr>TProtocol = HTTP, TAddr = CHR ''['' # h @ CHR '']'' # CHR '':'' # port,
        TRemoteAddr = [], TSubdomain = label\<rparr> name
      = Inr \<lparr>TProtocol = HTTP, TAddr = h @ CHR '':'' # port, TRemoteAddr = [], TSubdomain = label\<rparr> \<and>
    split_host_port (h @ CHR '':'' # port) = Inl (TooManyColons (h @ CHR '':'' # port))"
proof -
  let ?s = "h @ CHR '':'' # port"
  have "h \<noteq> []" using assms(1) by auto
  have "atoi (CHR ''['' # h @ CHR '']'' # CHR '':'' # port) = None" by (rule atoi_colon) simp
  then have norm: "normalize_address (CHR ''['' # h @ CHR '']'' # CHR '':'' # port) = Inr ?s"
    using split_host_port_bracketed [OF assms(2-4)] \<open>h \<noteq> []\<close> by (simp add: normalize_address_def)
  have split: "split_host_port ?s = Inl (TooManyColons ?s)" by (rule split_joined_colons [OF assms(1,2,4)])
  from norm split assms(5) valid_subdomain_label_chars(1) [OF assms(5)] show ?thesis
    by (auto simp: complete_tcp_def complete_http_def Let_def)
qed

theorem ipv6_local_address_witness:
  "normalize_address ''[::1]:80'' = Inr ''::1:80'' \<and> split_host_port ''::1:80'' = Inl (TooManyColons ''::1:80'')"
  using ipv6_local_address [of "''::1''" "''80''" "''web''" "[]"] valid_web by (simp add: plain_chars_def)

section \<open>Certificate paths\<close>

text \<open>
  A certificate path of the file never depends on the directory the client is started
  in, if the file itself is given by an absolute path: a path that is set resolves to an
  absolute one, which resolving again leaves alone; an absolute path is kept and an empty
  one stays empty.
\<close>

theorem config_paths_absolute:
  assumes "is_abs file"
  shows "resolve_config_path file [] = [] \<and>
    (if p = [] then True else is_abs (resolve_config_path file p)) \<and>
    (if is_abs p then resolve_config_path file p = p else True) \<and>
    resolve_config_path file (resolve_config_path file p) = resolve_config_path file p"
  using assms by (auto simp: resolve_config_path_def is_abs_join is_abs_dir)

theorem config_paths_absolute_witness:
  "is_abs (resolve_config_path ''/etc/tunnel/client.yml'' ''../certs/tls.crt'') \<and>
   resolve_config_path ''/etc/tunnel/client.yml'' ''../certs/tls.crt'' = ''/etc/certs/tls.crt''"
proof -
  have "is_abs ''/etc/tunnel/client.yml''" by code_simp
  from config_paths_absolute [OF this, of "''../certs/tls.crt''"]
  have "is_abs (resolve_config_path ''/etc/tunnel/client.yml'' ''../certs/tls.crt'')" by simp
  moreover have "resolve_config_path ''/etc/tunnel/client.yml'' ''../certs/tls.crt'' = ''/etc/certs/tls.crt''"
    by code_simp
  ultimately show ?thesis by simp
qed

end
