(* ===== verification/StreamProxy.thy ===== *)
theory StreamProxy
  imports Proto HostPort Utils "HOL-Library.AList"
begin

text \<open>
  The client's side of a stream (streamproxy.go, proxy.go): which local address a control
  message leads to, and what happens to the bytes. A Go map lookup yields the zero value
  for a missing key, here the empty string, so a missing entry and an empty one are the
  same to this code. The map of local addresses is an association list, whose length is
  what the code tests.
\<close>

section \<open>Finding the local address\<close>

record stream_proxy =
  localAddr :: string
  localAddrMap :: "(string \<times> string) list"

definition new_stream_proxy :: "string \<Rightarrow> stream_proxy" where
  "new_stream_proxy addr = \<lparr>localAddr = addr, localAddrMap = []\<rparr>"

definition new_multi_stream_proxy :: "(string \<times> string) list \<Rightarrow> stream_proxy" where
  "new_multi_stream_proxy m = \<lparr>localAddr = [], localAddrMap = m\<rparr>"

definition lookup_addr :: "(string \<times> string) list \<Rightarrow> string \<Rightarrow> string" where
  "lookup_addr m k = (case map_of m k of None \<Rightarrow> [] | Some v \<Rightarrow> v)"

definition host_and_port :: "string \<Rightarrow> string \<times> string" where
  "host_and_port s = (case split_host_port s of Inl _ \<Rightarrow> ([], []) | Inr hp \<Rightarrow> hp)"

definition local_addr_for :: "stream_proxy \<Rightarrow> string \<Rightarrow> string" where
  "local_addr_for p hostPort =
     (let m = localAddrMap p; (host, port) = host_and_port hostPort in
      if m = [] then localAddr p
      else if lookup_addr m hostPort \<noteq> [] then lookup_addr m hostPort
      else if lookup_addr m port \<noteq> [] then lookup_addr m port
      else if lookup_addr m (''0.0.0.0:'' @ port) \<noteq> [] then lookup_addr m (''0.0.0.0:'' @ port)
      else if lookup_addr m host \<noteq> [] then lookup_addr m host
      else localAddr p)"

lemma lookup_addr_simps [simp]:
  "lookup_addr [] k = []"
  "lookup_addr (AList.update k v m) k' = (if k' = k then v else lookup_addr m k')"
  by (simp_all add: lookup_addr_def update_conv)

lemma local_addr_for_exact:
  assumes "lookup_addr (localAddrMap p) h \<noteq> []"
  shows "local_addr_for p h = lookup_addr (localAddrMap p) h"
proof -
  have "localAddrMap p \<noteq> []" using assms by auto
  with assms show ?thesis by (simp add: local_addr_for_def Let_def split: prod.split)
qed

section \<open>Proxying\<close>

datatype stream_result =
    UnsupportedProtocol string
  | NoTarget
  | DialFailed string string
  | Piped string "transfer_log list" "transfer_log list"

text \<open>
  \<open>Proxy\<close>: the local connection is a writer for the request's bytes and a source of the
  response's; the state \<open>'s\<close> is that of both peers. The two copies run concurrently and
  act on different peers; here the response is copied first.
\<close>

record 's local_conn =
  to_local :: "'s writer"
  from_local :: source

definition stream_proxy_run :: "stream_proxy \<Rightarrow> (string \<Rightarrow> string + 's local_conn) \<Rightarrow> 't writer \<Rightarrow> bool
    \<Rightarrow> ('t \<Rightarrow> 't) \<Rightarrow> source \<Rightarrow> control_message \<Rightarrow> 's \<Rightarrow> 't \<Rightarrow> stream_result \<times> 's \<times> 't" where
  "stream_proxy_run p dial w is_flusher flush r msg s t =
     (if \<not> (ForwardedProto msg = TCP \<or> ForwardedProto msg = TCP4 \<or> ForwardedProto msg = TCP6 \<or>
            ForwardedProto msg = HTTP)
      then (UnsupportedProtocol (ForwardedProto msg), s, t)
      else let target = local_addr_for p (ForwardedHost msg) in
        if target = [] then (NoTarget, s, t)
        else case dial target of
          Inl err \<Rightarrow> (DialFailed target err, s, t)
        | Inr c \<Rightarrow>
            let (down, t') = transfer (flush_write is_flusher flush w) (from_local c) t;
                (up, s') = transfer (to_local c) r s
            in (Piped target down up, s', t'))"

text \<open>\<open>Proxy(ProxyFuncs)\<close>: which function gets the stream, \<open>None\<close> for none.\<close>

definition proxy_func :: "'f option \<Rightarrow> control_message \<Rightarrow> 'f option" where
  "proxy_func stream msg =
     (if ForwardedProto msg = TCP \<or> ForwardedProto msg = TCP4 \<or> ForwardedProto msg = TCP6 \<or>
         ForwardedProto msg = HTTP
      then stream else None)"

text \<open>
  The proxy dials exactly the first address it finds for the exact host and port, for
  the port alone, for \<open>0.0.0.0\<close> with the port, for the host alone, or the default, and it
  dials nothing when all of these are missing or the protocol is not one of tcp, tcp4, tcp6
  and http; an entry is never used if one that precedes it exists.
\<close>

theorem proxy_dials_first_match:
  assumes "localAddrMap p \<noteq> []"
    and "stream_proxy_run p dial w fl flush r msg s t = (res, s', t')"
  shows "(case res of
      DialFailed target e \<Rightarrow> dial target = Inl e \<and> target \<noteq> []
    | Piped target d u \<Rightarrow> (\<exists>c. dial target = Inr c) \<and> target \<noteq> []
    | _ \<Rightarrow> s' = s \<and> t' = t) \<and>
    (\<forall>target. (\<exists>e d u. res = DialFailed target e \<or> res = Piped target d u) \<longrightarrow>
       ForwardedProto msg \<in> {TCP, TCP4, TCP6, HTTP} \<and>
       find (\<lambda>a. a \<noteq> [])
         (map (lookup_addr (localAddrMap p))
           [ForwardedHost msg, snd (host_and_port (ForwardedHost msg)),
            ''0.0.0.0:'' @ snd (host_and_port (ForwardedHost msg)), fst (host_and_port (ForwardedHost msg))]
          @ [localAddr p]) = Some target)"
proof -
  obtain host port where hp: "host_and_port (ForwardedHost msg) = (host, port)" by fastforce
  let ?m = "localAddrMap p"
  have "find (\<lambda>a. a \<noteq> []) (map (lookup_addr ?m) [ForwardedHost msg, port, ''0.0.0.0:'' @ port, host] @ [localAddr p])
      = (if local_addr_for p (ForwardedHost msg) = [] then None else Some (local_addr_for p (ForwardedHost msg)))"
    using assms(1) hp by (auto simp: local_addr_for_def)
  with assms(2) hp show ?thesis
    by (auto simp: stream_proxy_run_def Let_def split: if_splits sum.splits prod.splits)
qed

definition sample_local :: "(string \<times> string) local_conn" where
  "sample_local = \<lparr>to_local = buffer_write, from_local = ([''hi'', ''ho''], None)\<rparr>"

theorem proxy_dials_first_match_witness:
  "let p = new_multi_stream_proxy [(''app'', ''127.0.0.1:80''), (''0.0.0.0:22'', ''127.0.0.1:22'')];
       msg = \<lparr>Action = ActionProxy, ForwardedHost = ''[::]:22'', ForwardedProto = TCP, RemoteAddr = []\<rparr>;
       res = fst (stream_proxy_run p (\<lambda>_. Inr sample_local) buffer_write True buffer_flush ([''x''], None)
         msg ([], []) ([], []))
   in \<exists>d u. res = Piped ''127.0.0.1:22'' d u \<and> ForwardedProto msg \<in> {TCP, TCP4, TCP6, HTTP}"
proof -
  let ?p = "new_multi_stream_proxy [(''app'', ''127.0.0.1:80''), (''0.0.0.0:22'', ''127.0.0.1:22'')]"
  let ?msg = "\<lparr>Action = ActionProxy, ForwardedHost = ''[::]:22'', ForwardedProto = TCP, RemoteAddr = []\<rparr>"
  have run: "stream_proxy_run ?p (\<lambda>_. Inr sample_local) buffer_write True buffer_flush (([''x''], None) :: source)
      ?msg ([], []) ([], []) = (Piped ''127.0.0.1:22'' [TransferredLine 4] [TransferredLine 1], ([], ''x''), (''hiho'', []))"
    by code_simp
  from proxy_dials_first_match [OF _ run] have "ForwardedProto ?msg \<in> {TCP, TCP4, TCP6, HTTP}"
    by (simp only: new_multi_stream_proxy_def) auto
  with run show ?thesis by (simp add: Let_def)
qed

end
