(* ===== verification/ClientCmd.thy ===== *)
theory ClientCmd
  imports ClientConfig StreamProxy Ids "HOL-Library.List_Lexorder"
begin

text \<open>
  The client command (cmd/client/options.go): its arguments, the TLS configuration, what
  it asks the server for and the table of local targets it gives the stream proxy. The
  file system and the certificate functions of crypto/tls and crypto/x509 are arguments.
\<close>

section \<open>Arguments\<close>

record client_options =
  config :: string
  tlsCrt :: string
  tlsKey :: string
  rootCA :: string
  tlsCrtSet :: bool
  tlsKeySet :: bool
  rootCASet :: bool
  command :: string
  args :: "string list"
  logLevel :: int

definition default_client_options :: client_options where
  "default_client_options =
     \<lparr>config = ''tunnel.yml'', tlsCrt = ''tls.crt'', tlsKey = ''tls.key'', rootCA = ''ca.crt'',
      tlsCrtSet = False, tlsKeySet = False, rootCASet = False, command = [], args = [], logLevel = 1\<rparr>"

definition resolve_path :: "string \<Rightarrow> bool \<Rightarrow> string \<Rightarrow> string" where
  "resolve_path flagVal flagSet configVal =
     (if flagSet \<or> configVal = [] then flagVal else configVal)"

datatype args_error = TakesNoArguments string | NoTunnelNamed | UnknownCommand string

text \<open>\<open>CompleteArgs\<close>: the flags that were set, and the arguments after them.\<close>

definition complete_args :: "string list \<Rightarrow> string list \<Rightarrow> client_options \<Rightarrow> args_error option \<times> client_options" where
  "complete_args visited rest opts =
     (let opts = opts\<lparr>tlsCrtSet := tlsCrtSet opts \<or> ''tls-crt'' \<in> set visited,
                      tlsKeySet := tlsKeySet opts \<or> ''tls-key'' \<in> set visited,
                      rootCASet := rootCASet opts \<or> ''ca-crt'' \<in> set visited,
                      command := (case rest of [] \<Rightarrow> [] | c # _ \<Rightarrow> c)\<rparr>;
          cmd = command opts;
          with_args = opts\<lparr>args := tl rest\<rparr>
      in if cmd = ''id'' \<or> cmd = ''list'' then
           (if tl rest \<noteq> [] then Some (TakesNoArguments ''list'') else None, with_args)
         else if cmd = ''start'' then
           (if tl rest = [] then Some NoTunnelNamed else None, with_args)
         else if cmd = ''start-all'' then
           (if tl rest \<noteq> [] then Some (TakesNoArguments ''start-all'') else None, with_args)
         else (Some (UnknownCommand cmd), opts))"

section \<open>TLS\<close>

record crypto_env =
  windows :: bool
  stat :: "string \<Rightarrow> string + 32 word"
  load_key_pair :: "string \<Rightarrow> string \<Rightarrow> string + byte list"
  parse_certificate :: "byte list \<Rightarrow> string + byte list"
  read_file :: "string \<Rightarrow> string + string"
  append_certs :: "string \<Rightarrow> bool"

datatype tls_error =
    KeyPermissions key_error
  | KeyPairInvalid string
  | NoRootCA
  | RootCAUnreadable string
  | RootCAInvalid
  | TLSServerAddr addr_error

record client_tls =
  ServerName :: string
  Certificate :: "byte list"
  RootCAs :: string
  InsecureSkipVerify :: bool

definition client_tls_config :: "crypto_env \<Rightarrow> client_options \<Rightarrow> client_file \<Rightarrow> tls_error + client_tls" where
  "client_tls_config e opts c =
     (case check_private_key_permissions (windows e) (stat e) (tlsKey opts) of
        Some err \<Rightarrow> Inl (KeyPermissions err)
      | None \<Rightarrow>
        (case load_key_pair e (tlsCrt opts) (tlsKey opts) of
           Inl err \<Rightarrow> Inl (KeyPairInvalid err)
         | Inr cert \<Rightarrow>
             if rootCA opts = [] then Inl NoRootCA
             else case read_file e (rootCA opts) of
               Inl err \<Rightarrow> Inl (RootCAUnreadable err)
             | Inr pem \<Rightarrow>
                 let loaded = append_certs e pem in
                 if \<not> loaded then Inl RootCAInvalid
                 else case split_host_port (ServerAddr c) of
                   Inl err \<Rightarrow> Inl (TLSServerAddr err)
                 | Inr (host, _) \<Rightarrow>
                     Inr \<lparr>ServerName = host, Certificate = cert, RootCAs = pem,
                          InsecureSkipVerify = \<not> loaded\<rparr>))"

section \<open>What is handed to the client\<close>

definition exp_backoff :: "backoff_config \<Rightarrow> backoff_config \<Rightarrow> backoff_config" where
  "exp_backoff c b =
     b\<lparr>Interval := Interval c, Multiplier := Multiplier c, MaxInterval := MaxInterval c, MaxTime := MaxTime c\<rparr>"

text \<open>\<open>tunnels\<close>: the tunnels as they are sent to the server.\<close>

definition proto_tunnel :: "client_tunnel \<Rightarrow> tunnel" where
  "proto_tunnel t =
     \<lparr>Protocol = TProtocol t, Host = (if TProtocol t = HTTP then TSubdomain t else []),
      Auth = [], Addr = TRemoteAddr t\<rparr>"

definition handshake_tunnels :: "(string \<times> client_tunnel) list \<Rightarrow> (string \<times> tunnel option) list" where
  "handshake_tunnels m = map (\<lambda>(name, t). (name, Some (proto_tunnel t))) m"

text \<open>\<open>proxy\<close>: the table of local targets, in the order of the range.\<close>

fun proxy_targets :: "(string \<times> client_tunnel) list \<Rightarrow> (string \<times> string) list \<Rightarrow> (string \<times> string) list" where
  "proxy_targets [] tcpAddr = tcpAddr"
| "proxy_targets ((_, t) # m) tcpAddr =
     proxy_targets m
       (if tcp_protocol (TProtocol t) then AList.update (TRemoteAddr t) (TAddr t) tcpAddr
        else if TProtocol t = HTTP then AList.update (TSubdomain t) (TAddr t) tcpAddr
        else tcpAddr)"

definition client_proxy :: "(string \<times> client_tunnel) list \<Rightarrow> stream_proxy" where
  "client_proxy m = new_multi_stream_proxy (proxy_targets m [])"

section \<open>Execute\<close>

datatype client_cmd_error =
    ConfigurationError config_error
  | KeyPairError key_error
  | KeyPairLoad string
  | CertificateParse string
  | NoSuchTunnel string
  | NoTunnelsConfigured
  | TLSFailed tls_error
  | DumpFailed string

record client_start =
  start_addr :: string
  start_tls :: client_tls
  start_backoff :: backoff_config
  start_tunnels :: "(string \<times> tunnel option) list"
  start_proxy :: stream_proxy

datatype execution = ExecError client_cmd_error | ExecPanic | Printed "string list" | StartClient client_start

fun select_tunnels :: "(string \<times> client_tunnel) list \<Rightarrow> string list \<Rightarrow> (string \<times> client_tunnel) list
    \<Rightarrow> string + (string \<times> client_tunnel) list" where
  "select_tunnels m [] sel = Inr sel"
| "select_tunnels m (arg # rest) sel =
     (case map_of m arg of
        None \<Rightarrow> Inl arg
      | Some t \<Rightarrow> select_tunnels m rest (AList.update arg t sel))"

text \<open>Loading leaves no nil pointer; the entries as the later code uses them.\<close>

definition tunnel_entries :: "client_file \<Rightarrow> (string \<times> client_tunnel) list" where
  "tunnel_entries c = map (\<lambda>(name, t). (name, the t)) (Tunnels c)"

definition execute_start :: "crypto_env \<Rightarrow> string option \<Rightarrow> backoff_config \<Rightarrow> client_options
    \<Rightarrow> client_file \<Rightarrow> (string \<times> client_tunnel) list \<Rightarrow> execution" where
  "execute_start e dump_error new_backoff opts c m =
     (if m = [] then ExecError NoTunnelsConfigured
      else case client_tls_config e opts c of
        Inl err \<Rightarrow> ExecError (TLSFailed err)
      | Inr tls \<Rightarrow>
          (case dump_error of
             Some err \<Rightarrow> ExecError (DumpFailed err)
           | None \<Rightarrow>
               StartClient \<lparr>start_addr = ServerAddr c, start_tls = tls,
                 start_backoff = exp_backoff (BackoffOpts c) new_backoff,
                 start_tunnels = handshake_tunnels m, start_proxy = client_proxy m\<rparr>))"

definition execute_client :: "crypto_env \<Rightarrow> (string \<Rightarrow> client_file \<Rightarrow> string + client_file)
    \<Rightarrow> (byte list \<Rightarrow> byte list) \<Rightarrow> string option \<Rightarrow> backoff_config \<Rightarrow> client_options \<Rightarrow> execution" where
  "execute_client e unmarshal sha256 dump_error new_backoff opts =
     (case load_client_config (read_file e) unmarshal (config opts) of
        LoadError err \<Rightarrow> ExecError (ConfigurationError err)
      | LoadPanic \<Rightarrow> ExecPanic
      | Loaded c \<Rightarrow>
          let opts = opts\<lparr>tlsCrt := resolve_path (tlsCrt opts) (tlsCrtSet opts) (TLSCrt c),
                          tlsKey := resolve_path (tlsKey opts) (tlsKeySet opts) (TLSKey c),
                          rootCA := resolve_path (rootCA opts) (rootCASet opts) (CACrt c)\<rparr>;
              m = tunnel_entries c
          in if command opts = ''id'' then
               (case check_private_key_permissions (windows e) (stat e) (tlsKey opts) of
                  Some err \<Rightarrow> ExecError (KeyPairError err)
                | None \<Rightarrow>
                    (case load_key_pair e (tlsCrt opts) (tlsKey opts) of
                       Inl err \<Rightarrow> ExecError (KeyPairLoad err)
                     | Inr cert \<Rightarrow>
                         (case parse_certificate e cert of
                            Inl err \<Rightarrow> ExecError (CertificateParse err)
                          | Inr raw \<Rightarrow> Printed [id_string (id_new sha256 raw)])))
             else if command opts = ''list'' then Printed (sort (map fst m))
             else if command opts = ''start'' then
               (case select_tunnels m (args opts) [] of
                  Inl arg \<Rightarrow> ExecError (NoSuchTunnel arg)
                | Inr m \<Rightarrow> execute_start e dump_error new_backoff opts c m)
             else execute_start e dump_error new_backoff opts c m)"

section \<open>The table of local targets\<close>

definition target_key :: "client_tunnel \<Rightarrow> string" where
  "target_key t = (if tcp_protocol (TProtocol t) then TRemoteAddr t else TSubdomain t)"

definition all_ok :: "(string \<times> client_tunnel) list \<Rightarrow> bool" where
  "all_ok m \<longleftrightarrow> list_all (\<lambda>(_, t). tunnel_ok t) m"

text \<open>The table is that of the entries, later ones first.\<close>

lemma proxy_targets_lookup:
  "all_ok m \<Longrightarrow> lookup_addr (proxy_targets m acc) k =
     (case map_of (rev (map (\<lambda>(_, t). (target_key t, TAddr t)) m)) k of
        Some a \<Rightarrow> a | None \<Rightarrow> lookup_addr acc k)"
proof (induction m acc rule: proxy_targets.induct)
  case (1 acc)
  then show ?case by simp
next
  case (2 n t m acc)
  let ?acc = "AList.update (target_key t) (TAddr t) acc"
  have upd: "(if tcp_protocol (TProtocol t) then AList.update (TRemoteAddr t) (TAddr t) acc
      else if TProtocol t = HTTP then AList.update (TSubdomain t) (TAddr t) acc else acc) = ?acc"
    using "2.prems" by (auto simp: all_ok_def tunnel_ok_def target_key_def)
  have "all_ok m" using "2.prems" by (simp add: all_ok_def)
  from "2.IH" [OF this, unfolded upd] show ?case
    by (simp only: proxy_targets.simps upd) (simp add: map_add_def split: option.split)
qed

lemma client_proxy_lookup:
  assumes "all_ok m" "(name, t) \<in> set m"
    and "\<And>n' t'. \<lbrakk>(n', t') \<in> set m; target_key t' = target_key t\<rbrakk> \<Longrightarrow> TAddr t' = TAddr t"
  shows "lookup_addr (localAddrMap (client_proxy m)) (target_key t) = TAddr t"
proof -
  let ?es = "rev (map (\<lambda>(_, t). (target_key t, TAddr t)) m)"
  have "(target_key t, TAddr t) \<in> set ?es" using assms(2) by force
  then obtain a where a: "map_of ?es (target_key t) = Some a"
    using weak_map_of_SomeI by fastforce
  then have "(target_key t, a) \<in> set ?es" by (rule map_of_SomeD)
  then obtain n' t' where "(n', t') \<in> set m" "target_key t' = target_key t" "a = TAddr t'" by auto
  with assms(3) have "a = TAddr t" by simp
  with a show ?thesis
    by (simp add: client_proxy_def new_multi_stream_proxy_def proxy_targets_lookup [OF assms(1)])
qed

lemma client_proxy_no_key:
  "\<lbrakk>all_ok m; \<And>n t. (n, t) \<in> set m \<Longrightarrow> target_key t \<noteq> k\<rbrakk> \<Longrightarrow>
     lookup_addr (localAddrMap (client_proxy m)) k = []"
  by (force simp: client_proxy_def new_multi_stream_proxy_def proxy_targets_lookup
      split: option.split dest: map_of_SomeD)

text \<open>Keys of http tunnels are labels, keys of tcp tunnels are addresses.\<close>

lemma http_key_no_colon: "\<lbrakk>tunnel_ok t; TProtocol t = HTTP\<rbrakk> \<Longrightarrow> CHR '':'' \<notin> set (target_key t)"
  using valid_subdomain_label_chars(2) label_char_plain
  by (auto simp: tunnel_ok_def target_key_def)

lemma tcp_key_colon:
  "\<lbrakk>tunnel_ok t; tcp_protocol (TProtocol t)\<rbrakk> \<Longrightarrow>
     CHR '':'' \<in> set (target_key t) \<and> CHR ''['' \<notin> set (target_key t)"
  by (auto simp: tunnel_ok_def target_key_def joined_address_def plain_chars_def split: if_splits)

lemma ok_protocol: "tunnel_ok t \<Longrightarrow> TProtocol t = HTTP \<or> tcp_protocol (TProtocol t)"
  by (auto simp: tunnel_ok_def split: if_splits)

lemma tunnel_ok_addr: "tunnel_ok t \<Longrightarrow> TAddr t \<noteq> []"
  by (auto simp: tunnel_ok_def joined_address_def)

definition loaded_entries :: "(string \<times> client_tunnel option) list \<Rightarrow> (string \<times> client_tunnel) list" where
  "loaded_entries ts = map (\<lambda>(name, t). (name, the t)) ts"

lemma loaded_entries_ok:
  assumes "load_tunnels ts Map.empty = Loaded ts'"
  shows "all_ok (loaded_entries ts')"
    and "(n, t) \<in> set (loaded_entries ts') \<longleftrightarrow> (n, Some t) \<in> set ts'"
  using loaded_tunnels(2) [OF assms]
  by (force simp: all_ok_def loaded_entries_def list_all_iff)+

lemma distinct_subdomains_unique:
  assumes "distinct (used_subdomains ts)" "(n, Some t) \<in> set ts" "(n', Some t') \<in> set ts"
    and "TProtocol t = HTTP" "TProtocol t' = HTTP" "TSubdomain t = TSubdomain t'"
  shows "t = t'"
  using assms
proof (induction ts)
  case Nil
  then show ?case by simp
next
  case (Cons e ts)
  have sub: "TSubdomain u \<in> set (used_subdomains ts)" if "(k, Some u) \<in> set ts" "TProtocol u = HTTP" for k u
    using that by (force simp: used_subdomains_def)
  from Cons.prems(1) have d: "distinct (used_subdomains ts)"
    "\<And>k u. e = (k, Some u) \<Longrightarrow> TProtocol u = HTTP \<Longrightarrow> TSubdomain u \<notin> set (used_subdomains ts)"
    by auto
  show ?case
  proof (cases "e = (n, Some t)")
    case True
    with d(2) [OF this Cons.prems(4)] sub [of n' t'] Cons.prems show ?thesis by auto
  next
    case ne: False
    show ?thesis
    proof (cases "e = (n', Some t')")
      case True
      with d(2) [OF this Cons.prems(5)] sub [of n t] Cons.prems ne show ?thesis by auto
    next
      case False
      with ne Cons.prems(2,3) Cons.IH [OF d(1) _ _ Cons.prems(4-6)] show ?thesis by simp
    qed
  qed
qed

lemma http_target:
  assumes "load_tunnels ts Map.empty = Loaded ts'" and "(name, Some t) \<in> set ts'" and "TProtocol t = HTTP"
  shows "lookup_addr (localAddrMap (client_proxy (loaded_entries ts'))) (TSubdomain t) = TAddr t"
proof -
  note ok = loaded_entries_ok [OF assms(1)]
  have t: "(name, t) \<in> set (loaded_entries ts')" "target_key t = TSubdomain t"
    using assms(2,3) ok(2) by (simp_all add: target_key_def)
  have tok: "tunnel_ok u" if "(n, Some u) \<in> set ts'" for n u
    using loaded_tunnels(2) [OF assms(1)] that by auto
  have "TAddr u = TAddr t" if u: "(n, u) \<in> set (loaded_entries ts')" "target_key u = target_key t" for n u
  proof -
    have m: "(n, Some u) \<in> set ts'" using u(1) ok(2) by simp
    have "TProtocol u = HTTP"
      using ok_protocol [OF tok [OF m]] tcp_key_colon [OF tok [OF m]]
        http_key_no_colon [OF tok [OF assms(2)] assms(3)] u(2) by auto
    with distinct_subdomains_unique [OF loaded_tunnels(3) [OF assms(1)] m assms(2) _ assms(3)] u(2) t(2)
    show ?thesis by (simp add: target_key_def)
  qed
  from client_proxy_lookup [OF ok(1) t(1) this] t(2) show ?thesis by simp
qed

lemma http_local_addr:
  assumes "load_tunnels ts Map.empty = Loaded ts'" and "(name, Some t) \<in> set ts'" and "TProtocol t = HTTP"
  shows "local_addr_for (client_proxy (loaded_entries ts')) (TSubdomain t) = TAddr t"
proof -
  have "tunnel_ok t" using loaded_tunnels(2) [OF assms(1)] assms(2) by auto
  with http_target [OF assms] tunnel_ok_addr [of t]
    local_addr_for_exact [of "client_proxy (loaded_entries ts')" "TSubdomain t"]
  show ?thesis by simp
qed

lemma tcp_local_addr:
  assumes "load_tunnels ts Map.empty = Loaded ts'" and "(name, Some t) \<in> set ts'"
    and "tcp_protocol (TProtocol t)"
    and "\<And>n u. \<lbrakk>(n, Some u) \<in> set ts'; TRemoteAddr u = TRemoteAddr t\<rbrakk> \<Longrightarrow> TAddr u = TAddr t"
  shows "lookup_addr (localAddrMap (client_proxy (loaded_entries ts'))) (TRemoteAddr t) = TAddr t"
proof -
  note ok = loaded_entries_ok [OF assms(1)]
  have t: "(name, t) \<in> set (loaded_entries ts')" "target_key t = TRemoteAddr t"
    using assms(2,3) ok(2) by (simp_all add: target_key_def)
  have tok: "tunnel_ok u" if "(n, Some u) \<in> set ts'" for n u
    using loaded_tunnels(2) [OF assms(1)] that by auto
  have "TAddr u = TAddr t" if u: "(n, u) \<in> set (loaded_entries ts')" "target_key u = target_key t" for n u
  proof -
    have m: "(n, Some u) \<in> set ts'" using u(1) ok(2) by simp
    have "TProtocol u \<noteq> HTTP"
      using http_key_no_colon [OF tok [OF m]] tcp_key_colon [OF tok [OF assms(2)] assms(3)] u(2) by auto
    then have "tcp_protocol (TProtocol u)" using ok_protocol [OF tok [OF m]] by simp
    with assms(4) [OF m] u(2) t(2) show ?thesis by (simp add: target_key_def)
  qed
  from client_proxy_lookup [OF ok(1) t(1) this] t(2) show ?thesis by simp
qed

text \<open>
  A listener on all interfaces, which the server announces as \<open>[::]:port\<close>: its traffic goes where
  it should if no http tunnel has the port for its subdomain.
\<close>

lemma wildcard_target:
  assumes "load_tunnels ts Map.empty = Loaded ts'" and "plain_chars port"
    and "\<And>n u. \<lbrakk>(n, Some u) \<in> set ts'; TProtocol u = HTTP\<rbrakk> \<Longrightarrow> TSubdomain u \<noteq> port"
    and "(ssh, Some t) \<in> set ts'" and "tcp_protocol (TProtocol t)" and "TRemoteAddr t = ''0.0.0.0:'' @ port"
    and "\<And>n u. \<lbrakk>(n, Some u) \<in> set ts'; TRemoteAddr u = TRemoteAddr t\<rbrakk> \<Longrightarrow> TAddr u = TAddr t"
  shows "local_addr_for (client_proxy (loaded_entries ts')) (''[::]:'' @ port) = TAddr t"
proof -
  let ?p = "client_proxy (loaded_entries ts')"
  note ok = loaded_entries_ok [OF assms(1)]
  have tok: "tunnel_ok u" if "(n, Some u) \<in> set ts'" for n u
    using loaded_tunnels(2) [OF assms(1)] that by auto
  have key: "target_key v \<noteq> ''[::]:'' @ port \<and> target_key v \<noteq> port"
    if "(n, v) \<in> set (loaded_entries ts')" for n v
  proof -
    have m: "(n, Some v) \<in> set ts'" using ok(2) that by blast
    note mk = tok [OF m]
    have "TProtocol v = HTTP \<Longrightarrow> target_key v \<noteq> port" using assms(3) [OF m] by (simp add: target_key_def)
    then show ?thesis
      using ok_protocol [OF mk] http_key_no_colon [OF mk] tcp_key_colon [OF mk] assms(2)
      by (auto simp: plain_chars_def)
  qed
  have none: "lookup_addr (localAddrMap ?p) (''[::]:'' @ port) = []" "lookup_addr (localAddrMap ?p) port = []"
    by (rule client_proxy_no_key [OF ok(1)], use key in blast)+
  have wild: "lookup_addr (localAddrMap ?p) (''0.0.0.0:'' @ port) = TAddr t"
    using tcp_local_addr [OF assms(1,4,5,7)] assms(6) by simp
  have "TAddr t \<noteq> []" using tunnel_ok_addr [OF tok [OF assms(4)]] .
  moreover have "host_and_port (''[::]:'' @ port) = (''::'', port)"
    using split_host_port_bracketed [of "''::''" port] assms(2) by (simp add: host_and_port_def)
  moreover have "localAddrMap ?p \<noteq> []" using wild \<open>TAddr t \<noteq> []\<close> by auto
  ultimately show ?thesis using none wild by (simp add: local_addr_for_def)
qed

text \<open>
  What the server forwards for a tunnel, for \<open>localAddrFor\<close> to look up: the subdomain of an http
  tunnel; for a tcp tunnel the text of its listener's address (\<open>l.Addr()\<close>), which for an IP
  address and a port is what was asked for, and for all interfaces \<open>[::]:port\<close> where the system
  has IPv6. (A host name is shown resolved, and port 0 as the port that was chosen; these are
  not among them.)
\<close>

definition forwarded_hosts :: "client_tunnel \<Rightarrow> string list" where
  "forwarded_hosts t =
     (if TProtocol t = HTTP then [TSubdomain t]
      else TRemoteAddr t #
        (case split_host_port (TRemoteAddr t) of
           Inr (h, port) \<Rightarrow> if h = ''0.0.0.0'' then [''[::]:'' @ port] else []
         | Inl _ \<Rightarrow> []))"



text \<open>
  A remote address with a host name is announced resolved, and then finds no target: neither the
  resolved address nor its host, nor the port, is a key of the table.
\<close>

lemma resolved_host_has_no_target:
  assumes "load_tunnels ts Map.empty = Loaded ts'" and "plain_chars ip" and "plain_chars port"
    and "\<And>n u. (n, Some u) \<in> set ts' \<Longrightarrow>
      target_key u \<notin> {ip @ '':'' @ port, port, ''0.0.0.0:'' @ port, ip}"
  shows "local_addr_for (client_proxy (loaded_entries ts')) (ip @ '':'' @ port) = []"
proof -
  note ok = loaded_entries_ok [OF assms(1)]
  have none: "lookup_addr (localAddrMap (client_proxy (loaded_entries ts'))) k = []"
    if "k \<in> {ip @ '':'' @ port, port, ''0.0.0.0:'' @ port, ip}" for k
    by (rule client_proxy_no_key [OF ok(1)]) (use that assms(4) ok(2) in blast)
  have "host_and_port (ip @ '':'' @ port) = (ip, port)"
    using split_host_port_plain [OF assms(2,3)] by (simp add: host_and_port_def)
  with none show ?thesis
    by (simp add: local_addr_for_def client_proxy_def new_multi_stream_proxy_def Let_def)
qed

text \<open>
  C38: A subdomain that is a number takes over the traffic of the wildcard listener on that
  port: the server announces a listener on all interfaces as \<open>[::]:port\<close>, and in the table,
  whose keys do not say which kind of tunnel they come from, the bare port precedes
  \<open>0.0.0.0:port\<close>. The connections of the tcp tunnel reach the http tunnel's service.
\<close>

theorem numeric_subdomain_takes_tcp:
  assumes "load_tunnels ts Map.empty = Loaded ts'" and "plain_chars port"
    and "(web, Some u) \<in> set ts'" and "TProtocol u = HTTP" and "TSubdomain u = port"
    and "(ssh, Some t) \<in> set ts'" and "tcp_protocol (TProtocol t)" and "TRemoteAddr t = ''0.0.0.0:'' @ port"
    and "\<And>n v. \<lbrakk>(n, Some v) \<in> set ts'; TRemoteAddr v = TRemoteAddr t\<rbrakk> \<Longrightarrow> v = t"
  shows "local_addr_for (client_proxy (loaded_entries ts')) (''[::]:'' @ port) = TAddr u \<and>
    local_addr_for (client_proxy (loaded_entries ts')) (''0.0.0.0:'' @ port) = TAddr t"
proof -
  let ?p = "client_proxy (loaded_entries ts')"
  note ok = loaded_entries_ok [OF assms(1)]
  have tok: "tunnel_ok u" if "(n, Some u) \<in> set ts'" for n u
    using loaded_tunnels(2) [OF assms(1)] that by auto
  have key: "target_key v \<noteq> ''[::]:'' @ port" if "(n, v) \<in> set (loaded_entries ts')" for n v
  proof -
    have m: "tunnel_ok v" using tok ok(2) that by blast
    show ?thesis using ok_protocol [OF m] http_key_no_colon [OF m] tcp_key_colon [OF m] by auto
  qed
  have exact: "lookup_addr (localAddrMap ?p) (''[::]:'' @ port) = []"
    by (rule client_proxy_no_key [OF ok(1) key])
  have port: "lookup_addr (localAddrMap ?p) port = TAddr u"
    using http_target [OF assms(1,3,4)] assms(5) by simp
  have "TAddr u \<noteq> []" using tunnel_ok_addr [OF tok [OF assms(3)]] .
  moreover have "host_and_port (''[::]:'' @ port) = (''::'', port)"
    using split_host_port_bracketed [of "''::''" port] assms(2) by (simp add: host_and_port_def)
  moreover have "localAddrMap ?p \<noteq> []" using port \<open>TAddr u \<noteq> []\<close> by auto
  ultimately have "local_addr_for ?p (''[::]:'' @ port) = TAddr u"
    using exact port by (simp add: local_addr_for_def)
  moreover have "lookup_addr (localAddrMap ?p) (''0.0.0.0:'' @ port) = TAddr t"
    using tcp_local_addr [OF assms(1,6,7)] assms(8,9) by simp
  ultimately show ?thesis
    using local_addr_for_exact [of ?p "''0.0.0.0:'' @ port"] tunnel_ok_addr [OF tok [OF assms(6)]] by simp
qed

definition numeric_tunnels :: "(string \<times> client_tunnel option) list" where
  "numeric_tunnels =
     [(''8080'', Some \<lparr>TProtocol = HTTP, TAddr = ''127.0.0.1:9090'', TRemoteAddr = [], TSubdomain = ''8080''\<rparr>),
      (''app'', Some \<lparr>TProtocol = TCP, TAddr = ''127.0.0.1:80'', TRemoteAddr = ''0.0.0.0:8080'', TSubdomain = []\<rparr>)]"

lemma numeric_loaded: "load_tunnels numeric_tunnels Map.empty = Loaded numeric_tunnels"
proof -
  have "normalize_address ''127.0.0.1:9090'' = Inr ''127.0.0.1:9090''"
    "normalize_address ''127.0.0.1:80'' = Inr ''127.0.0.1:80''"
    "normalize_address ''0.0.0.0:8080'' = Inr ''0.0.0.0:8080''"
    using normalize_address_plain [of "''127.0.0.1''" "''9090''"] normalize_address_plain [of "''127.0.0.1''" "''80''"]
      normalize_address_plain [of "''0.0.0.0''" "''8080''"] by (simp_all add: plain_chars_def)
  moreover have "valid_subdomain_label ''8080''" by code_simp
  ultimately show ?thesis
    by (simp add: numeric_tunnels_def protocol_names complete_http_def complete_tcp_def)
qed

theorem numeric_subdomain_takes_tcp_witness:
  "local_addr_for (client_proxy (loaded_entries numeric_tunnels)) ''[::]:8080'' = ''127.0.0.1:9090'' \<and>
   local_addr_for (client_proxy (loaded_entries numeric_tunnels)) ''0.0.0.0:8080'' = ''127.0.0.1:80''"
proof -
  let ?u = "\<lparr>TProtocol = HTTP, TAddr = ''127.0.0.1:9090'', TRemoteAddr = [], TSubdomain = ''8080''\<rparr>"
  let ?t = "\<lparr>TProtocol = TCP, TAddr = ''127.0.0.1:80'', TRemoteAddr = ''0.0.0.0:8080'', TSubdomain = []\<rparr>"
  have "local_addr_for (client_proxy (loaded_entries numeric_tunnels)) (''[::]:'' @ ''8080'') = TAddr ?u \<and>
      local_addr_for (client_proxy (loaded_entries numeric_tunnels)) (''0.0.0.0:'' @ ''8080'') = TAddr ?t"
    by (rule numeric_subdomain_takes_tcp [OF numeric_loaded, of "''8080''" "''8080''" ?u "''app''" ?t])
      (auto simp: numeric_tunnels_def plain_chars_def tcp_protocol_def)
  then show ?thesis by simp
qed

section \<open>What is started\<close>

lemma select_tunnels_names:
  "select_tunnels m names sel = Inr m' \<Longrightarrow>
     fst ` set m' = fst ` set sel \<union> set names \<and> set names \<subseteq> fst ` set m \<and>
     (distinct (map fst sel) \<longrightarrow> distinct (map fst m'))"
proof (induction m names sel rule: select_tunnels.induct)
  case (1 m sel)
  then show ?case by simp
next
  case (2 m arg rest sel)
  from "2.prems" obtain t where t: "map_of m arg = Some t" by (auto split: option.splits)
  then have "arg \<in> fst ` set m" by (force dest: map_of_SomeD)
  with 2 t show ?case by (auto simp: dom_update distinct_update)
qed

lemma select_tunnels_sub:
  "select_tunnels m names sel = Inr m' \<Longrightarrow> set m' \<subseteq> set sel \<union> set m"
proof (induction m names sel rule: select_tunnels.induct)
  case (2 m arg rest sel)
  from "2.prems" obtain t where t: "map_of m arg = Some t" by (auto split: option.splits)
  have "set (AList.update arg t sel) \<subseteq> insert (arg, t) (set sel)" by (induction sel) auto
  moreover have "(arg, t) \<in> set m" using t by (rule map_of_SomeD)
  ultimately show ?case using "2.IH" [OF t] "2.prems" t by auto
qed simp

lemma load_client_config_tunnels:
  assumes "load_client_config rf um file = Loaded c"
  shows "all_ok (tunnel_entries c)"
proof -
  obtain ts where "load_tunnels ts Map.empty = Loaded (Tunnels c)"
    using assms by (auto simp: load_client_config_def Let_def split: sum.splits if_splits loaded.splits)
  from loaded_entries_ok(1) [OF this] show ?thesis by (simp add: tunnel_entries_def loaded_entries_def)
qed

lemma handshake_names [simp]: "map fst (handshake_tunnels m) = map fst m"
  by (induction m) (auto simp: handshake_tunnels_def)

lemma handshake_Nil [simp]: "handshake_tunnels m = [] \<longleftrightarrow> m = []"
  by (simp add: handshake_tunnels_def)

lemma execute_start_StartClient:
  assumes "execute_start e de nb opts c m = StartClient s"
  shows "m \<noteq> [] \<and> start_tunnels s = handshake_tunnels m \<and> start_proxy s = client_proxy m \<and>
    start_addr s = ServerAddr c \<and> client_tls_config e opts c = Inr (start_tls s)"
  using assms by (auto simp: execute_start_def split: if_splits sum.splits option.splits)

text \<open>What a TLS configuration that is used rests on, by the paths of the key pair and of the CA.\<close>

definition tls_checked :: "crypto_env \<Rightarrow> string \<Rightarrow> string \<Rightarrow> string \<Rightarrow> string \<Rightarrow> client_tls \<Rightarrow> bool" where
  "tls_checked e crt key ca addr tls \<longleftrightarrow>
     check_private_key_permissions (windows e) (stat e) key = None \<and>
     load_key_pair e crt key = Inr (Certificate tls) \<and>
     ca \<noteq> [] \<and> read_file e ca = Inr (RootCAs tls) \<and> append_certs e (RootCAs tls) \<and>
     \<not> InsecureSkipVerify tls \<and>
     (case split_host_port addr of Inl _ \<Rightarrow> False | Inr (host, _) \<Rightarrow> ServerName tls = host)"

lemma client_tls_config_checked:
  "client_tls_config e opts c = Inr tls \<Longrightarrow>
     tls_checked e (tlsCrt opts) (tlsKey opts) (rootCA opts) (ServerAddr c) tls"
  by (auto simp: client_tls_config_def tls_checked_def Let_def
      split: if_splits sum.splits option.splits prod.splits)

text \<open>
  C33: A client that is started uses a private key that only its owner can access, with its
  certificate, and trusts for the server's certificate the CA of the configured file and
  nothing else, verified against the host it dials; each path is taken from the flag if that
  was given and from the configuration file otherwise. The tunnels it asks for and the table it
  forwards by are made of the same tunnels of the loaded, and so completed, configuration:
  exactly those named on the command line, each once, or all of them with \<open>start-all\<close>, and never
  none.
\<close>

theorem client_start_checked:
  assumes "execute_client e unmarshal sha256 de nb opts = StartClient s"
    and "command opts = ''start'' \<or> command opts = ''start-all''"
  shows "\<exists>c m. load_client_config (read_file e) unmarshal (config opts) = Loaded c \<and>
    tls_checked e (if tlsCrtSet opts \<or> TLSCrt c = [] then tlsCrt opts else TLSCrt c)
      (if tlsKeySet opts \<or> TLSKey c = [] then tlsKey opts else TLSKey c)
      (if rootCASet opts \<or> CACrt c = [] then rootCA opts else CACrt c) (start_addr s) (start_tls s) \<and>
    start_addr s = ServerAddr c \<and>
    start_tunnels s = handshake_tunnels m \<and> start_proxy s = client_proxy m \<and> m \<noteq> [] \<and>
    set m \<subseteq> set (tunnel_entries c) \<and> all_ok m \<and>
    (if command opts = ''start'' then set (map fst m) = set (args opts) \<and> distinct (map fst m)
     else m = tunnel_entries c)"
proof -
  from assms(1) obtain c where c: "load_client_config (read_file e) unmarshal (config opts) = Loaded c"
    by (auto simp: execute_client_def split: loaded.splits)
  let ?opts = "opts\<lparr>tlsCrt := resolve_path (tlsCrt opts) (tlsCrtSet opts) (TLSCrt c),
                    tlsKey := resolve_path (tlsKey opts) (tlsKeySet opts) (TLSKey c),
                    rootCA := resolve_path (rootCA opts) (rootCASet opts) (CACrt c)\<rparr>"
  have "\<exists>m. execute_start e de nb ?opts c m = StartClient s \<and> set m \<subseteq> set (tunnel_entries c) \<and>
      (if command opts = ''start'' then set (map fst m) = set (args opts) \<and> distinct (map fst m)
       else m = tunnel_entries c)"
  proof (cases "command opts = ''start''")
    case True
    with assms(1) c obtain m where m: "select_tunnels (tunnel_entries c) (args opts) [] = Inr m"
        "execute_start e de nb ?opts c m = StartClient s"
      by (auto simp: execute_client_def Let_def split: sum.splits)
    with select_tunnels_names [OF m(1)] select_tunnels_sub [OF m(1)] True show ?thesis
      by (intro exI [of _ m]) simp
  next
    case False
    with assms c show ?thesis by (intro exI [of _ "tunnel_entries c"]) (auto simp: execute_client_def Let_def)
  qed
  then obtain m where m: "execute_start e de nb ?opts c m = StartClient s" "set m \<subseteq> set (tunnel_entries c)"
      "if command opts = ''start'' then set (map fst m) = set (args opts) \<and> distinct (map fst m)
       else m = tunnel_entries c" by blast
  note st = execute_start_StartClient [OF m(1)]
  then have "tls_checked e (tlsCrt ?opts) (tlsKey ?opts) (rootCA ?opts) (ServerAddr c) (start_tls s)"
    by (intro client_tls_config_checked) simp
  moreover have "all_ok m"
    using load_client_config_tunnels [OF c] m(2) by (auto simp: all_ok_def list_all_iff)
  ultimately show ?thesis
    using c m(2,3) st by (intro exI [of _ c] exI [of _ m]) (simp add: resolve_path_def)
qed

definition sample_file :: client_file where
  "sample_file = default_client_file\<lparr>ServerAddr := ''10.0.0.1:5223'', TLSKey := ''keys/tls.key'',
     Tunnels := [web_entry, ssh_entry]\<rparr>"

definition sample_env :: crypto_env where
  "sample_env = \<lparr>windows = False, stat = (\<lambda>_. Inr 384), load_key_pair = (\<lambda>_ _. Inr []),
     parse_certificate = Inr, read_file = Inr, append_certs = (\<lambda>_. True)\<rparr>"

lemma sample_config_loaded:
  "load_client_config Inr (\<lambda>_ _. Inr sample_file) ''tunnel.yml''
     = Loaded (sample_file\<lparr>TLSKey := ''keys/tls.key'', Tunnels := [web_loaded, ssh_loaded]\<rparr>)"
proof -
  have "resolve_config_path ''tunnel.yml'' ''keys/tls.key'' = ''keys/tls.key''"
    "resolve_config_path ''tunnel.yml'' [] = []" by code_simp+
  moreover have "normalize_address ''10.0.0.1:5223'' = Inr ''10.0.0.1:5223''"
    using normalize_address_plain [of "''10.0.0.1''" "''5223''"] by (simp add: plain_chars_def)
  ultimately show ?thesis
    using sample_loaded
    by (simp add: load_client_config_def sample_file_def default_client_file_def del: load_tunnels.simps)
qed

theorem client_start_checked_witness:
  "\<exists>s. execute_client sample_env (\<lambda>_ _. Inr sample_file) (\<lambda>_. []) None (BackoffOpts default_client_file)
      (default_client_options\<lparr>command := ''start'', args := [''ssh'', ''ssh'']\<rparr>) = StartClient s \<and>
    fst ` set (start_tunnels s) = {''ssh''} \<and> distinct (map fst (start_tunnels s)) \<and>
    RootCAs (start_tls s) = ''ca.crt''"
proof -
  let ?opts = "default_client_options\<lparr>command := ''start'', args := [''ssh'', ''ssh'']\<rparr>"
  let ?x = "execute_client sample_env (\<lambda>_ _. Inr sample_file) (\<lambda>_. []) None (BackoffOpts default_client_file) ?opts"
  have "split_host_port ''10.0.0.1:5223'' = Inr (''10.0.0.1'', ''5223'')"
    using split_host_port_plain [of "''10.0.0.1''" "''5223''"] by (simp add: plain_chars_def)
  then have "\<exists>s. ?x = StartClient s"
    using sample_config_loaded
    by (simp add: execute_client_def sample_env_def default_client_options_def tunnel_entries_def
        web_loaded_def ssh_loaded_def execute_start_def client_tls_config_def sample_file_def
        check_private_key_permissions_def resolve_path_def default_client_file_def)
  then obtain s where s: "?x = StartClient s" by blast
  from client_start_checked [OF s] obtain c m where c: "load_client_config (read_file sample_env) (\<lambda>_ _. Inr sample_file) (config ?opts) = Loaded c"
      and tls: "tls_checked sample_env (if tlsCrtSet ?opts \<or> TLSCrt c = [] then tlsCrt ?opts else TLSCrt c)
        (if tlsKeySet ?opts \<or> TLSKey c = [] then tlsKey ?opts else TLSKey c)
        (if rootCASet ?opts \<or> CACrt c = [] then rootCA ?opts else CACrt c) (start_addr s) (start_tls s)"
      and m: "start_tunnels s = handshake_tunnels m" "set (map fst m) = set (args ?opts)" "distinct (map fst m)"
    by (auto simp: default_client_options_def)
  have "CACrt c = []"
    using c sample_config_loaded by (auto simp: sample_env_def default_client_options_def sample_file_def default_client_file_def)
  then have "RootCAs (start_tls s) = ''ca.crt''"
    using tls by (simp add: tls_checked_def sample_env_def default_client_options_def)
  moreover have "map fst (start_tunnels s) = map fst m" using m(1) by simp
  then have "fst ` set (start_tunnels s) = set (map fst m)" by (metis list.set_map)
  ultimately show ?thesis using s m by (simp add: default_client_options_def)
qed

end
