(* ===== verification/Client.thy ===== *)
theory Client
  imports Proto
begin

text \<open>
  The tunnel client (client.go): its construction, dialling with backoff, the dispatch of
  the server's requests, and the life cycle of \<open>Start\<close> next to the goroutine that stops the
  client when its context is cancelled. Dial attempts, backoff policy, clock and peer are
  arguments or steps of the environment.
\<close>

section \<open>Construction\<close>

record client_config =
  server_addr :: string
  tls_client_config :: bool
  client_tunnels :: "(string \<times> tunnel option) list"
  proxy_set :: bool

datatype new_client_error = MissingServerAddr | MissingTLSClientConfig | MissingTunnels | MissingProxy

definition new_client_check :: "client_config \<Rightarrow> new_client_error option" where
  "new_client_check cfg =
     (if server_addr cfg = [] then Some MissingServerAddr
      else if \<not> tls_client_config cfg then Some MissingTLSClientConfig
      else if client_tunnels cfg = [] then Some MissingTunnels
      else if \<not> proxy_set cfg then Some MissingProxy
      else None)"

section \<open>Dialling\<close>

text \<open>
  One attempt: the answers of a configured \<open>DialTLS\<close> (an error and possibly a connection
  with it), or of the dialer, the keepalive setting and the TLS handshake. The result
  comes with the connections that were closed.
\<close>

datatype dialer =
    DialTLS "string option" "nat option"
  | Dial "string + nat" "string option" "string option"

definition do_dial :: "dialer \<Rightarrow> (string + nat) \<times> nat list" where
  "do_dial d =
     (let (err, conn) =
        (case d of
           DialTLS err conn \<Rightarrow> (err, conn)
         | Dial (Inl err) _ _ \<Rightarrow> (Some err, None)
         | Dial (Inr c) keepalive handshake \<Rightarrow>
             (case keepalive of Some err \<Rightarrow> (Some err, Some c) | None \<Rightarrow> (handshake, Some c)))
      in case err of
           Some e \<Rightarrow> (Inl e, case conn of Some c \<Rightarrow> [c] | None \<Rightarrow> [])
         | None \<Rightarrow> (Inr (the conn), []))"

text \<open>
  The retry loop, which may run for ever: attempt \<open>k\<close>, the policy's state, the pauses so far.
  A backoff policy (backoff.go) is a function from its state to the next pause and state, and
  a reset; a negative pause says that no more attempts are to be made.
\<close>

record 'b backoff_policy =
  NextBackOff :: "'b \<Rightarrow> int \<times> 'b"
  ResetBackOff :: "'b \<Rightarrow> 'b"

datatype dial_error = DialFailed string | BackoffExceeded string

partial_function (option) dial_loop :: "(nat \<Rightarrow> string + nat) \<Rightarrow> ('b \<Rightarrow> int \<times> 'b) \<Rightarrow> ('b \<Rightarrow> 'b) \<Rightarrow> 'b
    \<Rightarrow> nat \<Rightarrow> int list \<Rightarrow> ((dial_error + nat) \<times> int list \<times> 'b) option" where
  "dial_loop attempt next_backoff reset b k pauses =
     (case attempt k of
        Inr c \<Rightarrow> Some (Inr c, pauses, reset b)
      | Inl err \<Rightarrow>
          (case next_backoff b of
             (d, b') \<Rightarrow>
               if d < 0 then Some (Inl (BackoffExceeded err), pauses, b')
               else dial_loop attempt next_backoff reset b' (Suc k) (pauses @ [d])))"

definition client_dial :: "(nat \<Rightarrow> string + nat) \<Rightarrow> 'b backoff_policy option \<Rightarrow> 'b
    \<Rightarrow> ((dial_error + nat) \<times> int list \<times> 'b) option" where
  "client_dial attempt backoff b =
     (case backoff of
        None \<Rightarrow> (case attempt 0 of
                  Inl err \<Rightarrow> Some (Inl (DialFailed err), [], b) | Inr c \<Rightarrow> Some (Inr c, [], b))
      | Some policy \<Rightarrow> dial_loop attempt (NextBackOff policy) (ResetBackOff policy) b 0 [])"

text \<open>The policy's state before attempt \<open>k\<close>, when all earlier ones failed.\<close>

definition backoff_state :: "('b \<Rightarrow> int \<times> 'b) \<Rightarrow> 'b \<Rightarrow> nat \<Rightarrow> 'b" where
  "backoff_state next_backoff b k = ((snd \<circ> next_backoff) ^^ k) b"

lemma backoff_state_simps [simp]:
  "backoff_state next_backoff b 0 = b"
  "backoff_state next_backoff (snd (next_backoff b)) k = backoff_state next_backoff b (Suc k)"
  by (simp_all add: backoff_state_def funpow_swap1)

lemma dial_loop_result:
  assumes "\<And>j. j < n \<Longrightarrow> isl (attempt (k + j)) \<and> 0 \<le> fst (next_backoff (backoff_state next_backoff b j))"
    and "\<not> isl (attempt (k + n)) \<or> fst (next_backoff (backoff_state next_backoff b n)) < 0"
  shows "dial_loop attempt next_backoff reset b k pauses =
    Some (let final = backoff_state next_backoff b n;
              slept = pauses @ map (\<lambda>j. fst (next_backoff (backoff_state next_backoff b j))) [0..<n]
          in case attempt (k + n) of
               Inr c \<Rightarrow> (Inr c, slept, reset final)
             | Inl err \<Rightarrow> (Inl (BackoffExceeded err), slept, snd (next_backoff final)))"
  using assms
proof (induction n arbitrary: b k pauses)
  case 0
  then show ?case
    by (subst dial_loop.simps) (auto split: sum.splits prod.splits)
next
  case (Suc n)
  obtain d b' where db: "next_backoff b = (d, b')" by (cases "next_backoff b")
  obtain err where err: "attempt k = Inl err" using Suc.prems(1) [of 0] by (auto simp: isl_def)
  have "0 \<le> d" using Suc.prems(1) [of 0] db by simp
  have b': "backoff_state next_backoff b' j = backoff_state next_backoff b (Suc j)" for j
    using db backoff_state_simps(2) [of next_backoff b j] by simp
  have IH: "dial_loop attempt next_backoff reset b' (Suc k) (pauses @ [d]) =
    Some (let final = backoff_state next_backoff b' n;
              slept = (pauses @ [d]) @ map (\<lambda>j. fst (next_backoff (backoff_state next_backoff b' j))) [0..<n]
          in case attempt (Suc k + n) of
               Inr c \<Rightarrow> (Inr c, slept, reset final)
             | Inl err \<Rightarrow> (Inl (BackoffExceeded err), slept, snd (next_backoff final)))"
  proof (rule Suc.IH)
    show "isl (attempt (Suc k + j)) \<and> 0 \<le> fst (next_backoff (backoff_state next_backoff b' j))"
      if "j < n" for j
      using Suc.prems(1) [of "Suc j"] that by (simp add: b')
    show "\<not> isl (attempt (Suc k + n)) \<or> fst (next_backoff (backoff_state next_backoff b' n)) < 0"
      using Suc.prems(2) by (simp add: b')
  qed
  have "map (\<lambda>j. fst (next_backoff (backoff_state next_backoff b j))) [0..<Suc n]
      = d # map (\<lambda>j. fst (next_backoff (backoff_state next_backoff b' j))) [0..<n]"
    by (simp add: upt_conv_Cons map_Suc_upt [symmetric] b' db comp_def del: upt_Suc)
  with IH err db \<open>0 \<le> d\<close> show ?case
    by (subst dial_loop.simps) (simp add: Let_def b' del: upt_Suc)
qed

text \<open>
  C16: With a backoff policy the client dials until an attempt succeeds or the policy gives
  up, whichever comes first, and then returns: with that attempt's connection and the
  policy reset, or with the last error. Between two attempts it pauses exactly as long as
  the policy says. If every attempt up to then failed and the policy did not give up, there
  is no earlier return.
\<close>

theorem dial_retries_until_success:
  assumes "\<And>j. j < n \<Longrightarrow> isl (attempt j) \<and> 0 \<le> fst (next_backoff (backoff_state next_backoff b j))"
    and "\<not> isl (attempt n) \<or> fst (next_backoff (backoff_state next_backoff b n)) < 0"
  shows "client_dial attempt (Some \<lparr>NextBackOff = next_backoff, ResetBackOff = reset\<rparr>) b =
    Some (let final = backoff_state next_backoff b n;
              pauses = map (\<lambda>j. fst (next_backoff (backoff_state next_backoff b j))) [0..<n]
          in case attempt n of
               Inr c \<Rightarrow> (Inr c, pauses, reset final)
             | Inl err \<Rightarrow> (Inl (BackoffExceeded err), pauses, snd (next_backoff final)))"
  using dial_loop_result [of n attempt 0 next_backoff b reset "[]"] assms
  by (simp add: client_dial_def)

theorem dial_retries_until_success_witness:
  "client_dial (\<lambda>k. if k < 2 then Inl ''refused'' else Inr 7)
       (Some \<lparr>NextBackOff = (\<lambda>b. (b, 2 * b)), ResetBackOff = (\<lambda>_. 500)\<rparr>) 500
     = Some (Inr 7, [500, 1000], 500)"
proof -
  have s: "backoff_state (\<lambda>b :: int. (b, 2 * b)) 500 j = 500 * 2 ^ j" for j
    by (induction j) (simp_all add: backoff_state_def)
  have "client_dial (\<lambda>k. if k < 2 then Inl ''refused'' else Inr 7)
        (Some \<lparr>NextBackOff = (\<lambda>b. (b, 2 * b)), ResetBackOff = (\<lambda>_. 500)\<rparr>) 500
      = Some (let final = backoff_state (\<lambda>b :: int. (b, 2 * b)) 500 2;
          pauses = map (\<lambda>j. fst ((\<lambda>b :: int. (b, 2 * b)) (backoff_state (\<lambda>b. (b, 2 * b)) 500 j))) [0..<2]
        in case (if 2 < (2 :: nat) then Inl ''refused'' else Inr 7) of
             Inr c \<Rightarrow> (Inr c, pauses, (\<lambda>_. 500) final)
           | Inl err \<Rightarrow> (Inl (BackoffExceeded err), pauses, snd ((\<lambda>b :: int. (b, 2 * b)) final)))"
    by (rule dial_retries_until_success) (simp_all add: s)
  then show ?thesis by (simp add: s upt_rec numeral_2_eq_2)
qed

text \<open>An attempt that fails leaves no connection open.\<close>

lemma do_dial_closes:
  "do_dial d = (r, cs) \<Longrightarrow>
     (case r of Inr c \<Rightarrow> cs = [] | Inl e \<Rightarrow>
        cs = (case d of DialTLS _ conn \<Rightarrow> (case conn of Some c \<Rightarrow> [c] | None \<Rightarrow> [])
                | Dial (Inr c) _ _ \<Rightarrow> [c] | Dial (Inl _) _ _ \<Rightarrow> []))"
  by (auto simp: do_dial_def Let_def split: dialer.splits sum.splits option.splits)

section \<open>Serving the server's requests\<close>

text \<open>A request as the client sees it; the body is what the JSON decoder makes of it.\<close>

record client_request =
  is_connect :: bool
  request_header :: header
  request_remote :: string
  tunnel_info :: "string + (string \<times> string) list"

datatype client_response =
    NothingWritten
  | SentTunnels "(string \<times> tunnel option) list"
  | TunnelsReady "(string \<times> string) list"
  | Failed nat string
  | MissingHeaders "string list"
  | Streams control_message

definition handle_handshake_error :: "client_request \<Rightarrow> string option" where
  "handle_handshake_error r = Some (header_get (request_header r) HeaderError)"

definition handle_handshake :: "client_config \<Rightarrow> string option \<Rightarrow> client_response" where
  "handle_handshake cfg marshal_error =
     (case marshal_error of
        Some err \<Rightarrow> Failed 500 err
      | None \<Rightarrow> SentTunnels (client_tunnels cfg))"

definition handle_tunnel_info :: "client_request \<Rightarrow> client_response" where
  "handle_tunnel_info r =
     (case tunnel_info r of
        Inl err \<Rightarrow> Failed 400 err
      | Inr hosts \<Rightarrow> TunnelsReady (map (\<lambda>(name, host). (name, ''https://'' @ host)) hosts))"

text \<open>\<open>serveHTTP\<close>: the response, and the server error to remember, if the request carries one.\<close>

definition serve_http :: "client_config \<Rightarrow> string option \<Rightarrow> client_request \<Rightarrow> client_response \<times> string option" where
  "serve_http cfg marshal_error r =
     (if is_connect r then
        if header_get (request_header r) HeaderError \<noteq> [] then (NothingWritten, handle_handshake_error r)
        else if header_get (request_header r) HeaderTunnelInfo \<noteq> [] then (handle_tunnel_info r, None)
        else (handle_handshake cfg marshal_error, None)
      else case read_control_message (request_header r) (request_remote r) of
        Inl missing \<Rightarrow> (MissingHeaders missing, None)
      | Inr msg \<Rightarrow>
          if Action msg = ActionProxy then (Streams msg, None)
          else (Failed 400 ''unknown action'', None))"

text \<open>
  The client answers each of the four requests a server makes for what it is: the
  first request of a connection gets the tunnels, an error message is remembered, the
  public names are reported, and a request with a complete control message for the proxy
  action is streamed. One header cannot be taken for another.
\<close>

theorem serve_http_dispatch:
  assumes "err \<noteq> []" and "complete_message msg" and "Action msg = ActionProxy"
  shows "serve_http cfg None \<lparr>is_connect = True, request_header = Map.empty, request_remote = ra, tunnel_info = ti\<rparr>
      = (SentTunnels (client_tunnels cfg), None) \<and>
    serve_http cfg me \<lparr>is_connect = True, request_header = header_set HeaderError err Map.empty,
        request_remote = ra, tunnel_info = ti\<rparr> = (NothingWritten, Some err) \<and>
    serve_http cfg me \<lparr>is_connect = True, request_header = header_set HeaderTunnelInfo ''1'' Map.empty,
        request_remote = ra, tunnel_info = Inr hs\<rparr>
      = (TunnelsReady (map (\<lambda>(name, host). (name, ''https://'' @ host)) hs), None) \<and>
    serve_http cfg me \<lparr>is_connect = False, request_header = write_to_header msg Map.empty,
        request_remote = ra, tunnel_info = ti\<rparr> = (Streams (msg\<lparr>RemoteAddr := ra\<rparr>), None)"
proof -
  have empty: "header_get Map.empty k = []" for k by (simp add: header_get_def)
  have "HeaderError \<noteq> HeaderTunnelInfo" using header_names_distinct by auto
  then show ?thesis
    using assms
    by (simp add: serve_http_def header_get_set empty handle_handshake_def handle_handshake_error_def
        handle_tunnel_info_def read_written_message)
qed

theorem serve_http_dispatch_witness:
  "serve_http \<lparr>server_addr = [], tls_client_config = True, client_tunnels = [], proxy_set = True\<rparr> None
     \<lparr>is_connect = True, request_header = header_set HeaderError ''no tunnels'' Map.empty,
      request_remote = [], tunnel_info = Inr []\<rparr> = (NothingWritten, Some ''no tunnels'')"
  using serve_http_dispatch [of "''no tunnels''"
      "\<lparr>Action = ActionProxy, ForwardedHost = ''app'', ForwardedProto = HTTP, RemoteAddr = []\<rparr>"]
  by (simp add: complete_message_def ActionProxy_def protocol_names)

section \<open>Start and Stop\<close>

text \<open>
  \<open>Start\<close> is at one of these points: about to connect, serving a connection, past
  \<open>ServeConn\<close>, past the test of the context, or returned. \<open>stop_pending\<close> says that the
  goroutine waiting for the context has been woken and has not called \<open>Stop\<close> yet. Everything
  \<open>connect\<close> and \<open>Stop\<close> do they do under the mutex, so each is one step, and so is the part
  of the loop that holds it. \<open>last_disconnect\<close> is \<open>None\<close> for the zero time.
\<close>

datatype client_exit = ContextDone | ConnectFailed string | AlreadyConnected | ServerError string | BeingCut

datatype point = Connecting | Serving nat | Disconnected | Deciding | Returned client_exit

record client =
  point :: point
  session :: "nat option"
  closed_sessions :: "nat set"
  server_err :: "string option"
  last_disconnect :: "int option"
  ctx_done :: bool
  stop_pending :: bool

definition new_client :: client where
  "new_client = \<lparr>point = Connecting, session = None, closed_sessions = {}, server_err = None,
     last_disconnect = None, ctx_done = False, stop_pending = False\<rparr>"

definition client_stop :: "client \<Rightarrow> client" where
  "client_stop c = c\<lparr>closed_sessions := closed_sessions c \<union> set_option (session c), session := None\<rparr>"

definition client_connected :: "client \<Rightarrow> bool" where
  "client_connected c \<longleftrightarrow> session c \<noteq> None"

text \<open>\<open>connect\<close> and what \<open>Start\<close> does with its result; \<open>dialled\<close> is the result of \<open>dial\<close>.\<close>

definition client_connect :: "string + nat \<Rightarrow> client \<Rightarrow> client" where
  "client_connect dialled c =
     (let failed = (\<lambda>err. c\<lparr>point := Returned (if ctx_done c then ContextDone else err)\<rparr>) in
      if session c \<noteq> None then failed AlreadyConnected
      else case dialled of
        Inl err \<Rightarrow> failed (ConnectFailed err)
      | Inr k \<Rightarrow> c\<lparr>session := Some k, point := Serving k\<rparr>)"

definition client_check_context :: "client \<Rightarrow> client" where
  "client_check_context c =
     c\<lparr>point := (if ctx_done c then Returned ContextDone else Deciding)\<rparr>"

text \<open>Five seconds, in nanoseconds.\<close>

definition hiccup :: int where "hiccup = 5 * 10 ^ 9"

definition client_decide :: "int \<Rightarrow> client \<Rightarrow> client" where
  "client_decide now c =
     (let err = (case server_err c of
                   Some e \<Rightarrow> Some (ServerError e)
                 | None \<Rightarrow>
                     (case last_disconnect c of
                        Some t \<Rightarrow> if now - t < hiccup then Some BeingCut else None
                      | None \<Rightarrow> None))
      in c\<lparr>session := None, server_err := None, last_disconnect := Some now,
           point := (case err of Some e \<Rightarrow> Returned e | None \<Rightarrow> Connecting)\<rparr>)"

inductive client_step :: "client \<Rightarrow> client \<Rightarrow> bool" where
  connect: "point c = Connecting \<Longrightarrow> client_step c (client_connect dialled c)"
| peer_gone: "point c = Serving k \<Longrightarrow> client_step c (c\<lparr>point := Disconnected\<rparr>)"
| check_context: "point c = Disconnected \<Longrightarrow> client_step c (client_check_context c)"
| decide: "point c = Deciding \<Longrightarrow> client_step c (client_decide now c)"
| error_push: "client_step c (c\<lparr>server_err := Some e\<rparr>)"
| cancel: "\<not> ctx_done c \<Longrightarrow> client_step c (c\<lparr>ctx_done := True, stop_pending := True\<rparr>)"
| stopper: "stop_pending c \<Longrightarrow> client_step c ((client_stop c)\<lparr>stop_pending := False\<rparr>)"
| stop_called: "client_step c (client_stop c)"

inductive_cases client_stepE: "client_step c d"

text \<open>What holds in every state \<open>Start\<close> can get into.\<close>

definition client_ok :: "client \<Rightarrow> bool" where
  "client_ok c \<longleftrightarrow>
     (case point c of
        Connecting \<Rightarrow> session c = None
      | Serving k \<Rightarrow> session c = Some k \<or> session c = None \<and> k \<in> closed_sessions c
      | Returned e \<Rightarrow> e \<noteq> AlreadyConnected \<and> (e = ContextDone \<longrightarrow> ctx_done c)
      | _ \<Rightarrow> True) \<and>
     (stop_pending c \<longrightarrow> ctx_done c)"

lemma client_ok_new [inv_intros]: "client_ok new_client"
  by (simp add: client_ok_def new_client_def)

lemma client_ok_step [inv_intros]: "client_step c d \<Longrightarrow> client_ok c \<Longrightarrow> client_ok d"
proof (induction rule: client_step.induct)
  case (stopper c)
  then show ?case by (auto simp: client_ok_def client_stop_def split: point.splits)
next
  case (stop_called c)
  then show ?case by (auto simp: client_ok_def client_stop_def split: point.splits)
next
  case (decide c now)
  then show ?case
    by (auto simp: client_ok_def client_decide_def Let_def split: option.splits if_splits)
next
  case (connect c dialled)
  then show ?case by (auto simp: client_ok_def client_connect_def Let_def split: sum.splits)
qed (auto simp: client_ok_def client_check_context_def split: point.splits)

interpretation client: invariant_system "\<lambda>c. c = new_client" client_step client_ok
  by unfold_locales (auto intro: inv_intros)

text \<open>
  C25: However connecting, disconnecting, errors from the server, cancellation and calls of
  \<open>Stop\<close> interleave, the client never holds two connections: it only dials when it holds
  none, so \<open>already connected\<close> is not reported; a connection it serves but no longer holds
  has been closed; and it blames its context only when this was cancelled.
\<close>

theorem client_one_connection:
  assumes "client_step\<^sup>*\<^sup>* new_client c"
  shows "case point c of
      Connecting \<Rightarrow> session c = None
    | Serving k \<Rightarrow> session c = Some k \<or> session c = None \<and> k \<in> closed_sessions c
    | Returned e \<Rightarrow> e \<noteq> AlreadyConnected \<and> (if e = ContextDone then ctx_done c else True)
    | _ \<Rightarrow> True"
  using client.reachable_inv [OF refl assms] by (auto simp: client_ok_def split: point.splits)

definition serving_client :: client where
  "serving_client = client_connect (Inr 1) new_client"

lemma serving_client_reachable: "client_step\<^sup>*\<^sup>* new_client serving_client"
  unfolding serving_client_def
  by (rule r_into_rtranclp, rule connect) (simp add: new_client_def)

theorem client_one_connection_witness:
  "point serving_client = Serving 1 \<and> session serving_client = Some 1"
  using client_one_connection [OF serving_client_reachable]
  by (simp add: serving_client_def client_connect_def new_client_def)

lemma cancelled_at_check:
  assumes "point c = Disconnected" and "ctx_done c"
  shows "\<exists>e. client_step\<^sup>*\<^sup>* c e \<and> point e = Returned ContextDone \<and> closed_sessions e = closed_sessions c"
  using check_context [OF assms(1)] assms(2) by (auto simp: client_check_context_def)

lemma cancelled_returns:
  assumes "point c \<in> {Serving k, Disconnected, Returned ContextDone}" and "ctx_done c"
    and "session c = Some k \<and> stop_pending c \<or> k \<in> closed_sessions c"
  shows "\<exists>e. client_step\<^sup>*\<^sup>* c e \<and> point e = Returned ContextDone \<and> k \<in> closed_sessions e"
proof -
  obtain f where d: "client_step\<^sup>*\<^sup>* c f" "k \<in> closed_sessions f" "point f = point c" "ctx_done f"
  proof (cases "k \<in> closed_sessions c")
    case True
    with that [of c] assms(2) show ?thesis by simp
  next
    case False
    with assms(3) have c: "session c = Some k" "stop_pending c" by simp_all
    from that [of "(client_stop c)\<lparr>stop_pending := False\<rparr>"] stopper [OF c(2)] c(1) assms(2)
    show ?thesis by (simp add: client_stop_def r_into_rtranclp)
  qed
  consider "point c = Serving k" | "point c = Disconnected" | "point c = Returned ContextDone"
    using assms(1) by auto
  then have "\<exists>e. client_step\<^sup>*\<^sup>* f e \<and> point e = Returned ContextDone \<and> k \<in> closed_sessions e"
  proof cases
    case 1
    then have "client_step f (f\<lparr>point := Disconnected\<rparr>)" using d by (intro peer_gone) simp
    moreover from cancelled_at_check [of "f\<lparr>point := Disconnected\<rparr>"] d obtain e where
      "client_step\<^sup>*\<^sup>* (f\<lparr>point := Disconnected\<rparr>) e" "point e = Returned ContextDone" "k \<in> closed_sessions e"
      by auto
    ultimately show ?thesis by (meson converse_rtranclp_into_rtranclp)
  next
    case 2
    with cancelled_at_check [of f] d show ?thesis by auto
  next
    case 3
    with d show ?thesis by auto
  qed
  with d(1) show ?thesis by (meson rtranclp_trans)
qed

text \<open>
  C15: Cancelling a client that is serving ends it: it does not dial again, whatever
  happens afterwards; once \<open>Stop\<close> has run the connection it serves is closed; and from every
  state that follows \<open>Start\<close> still gets to return, which it can only do with the context's
  error: no interleaving leaves it stuck.
\<close>

theorem cancel_while_serving:
  assumes "point c = Serving k" and "session c = Some k" and "ctx_done c" and "stop_pending c"
    and "client_step\<^sup>*\<^sup>* c d"
  shows "point d \<in> {Serving k, Disconnected, Returned ContextDone} \<and> ctx_done d \<and>
    (stop_pending d \<or> k \<in> closed_sessions d) \<and>
    (\<exists>e. client_step\<^sup>*\<^sup>* d e \<and> point e = Returned ContextDone \<and> k \<in> closed_sessions e)"
proof -
  have d: "point d \<in> {Serving k, Disconnected, Returned ContextDone} \<and> ctx_done d \<and>
      (session d = Some k \<and> stop_pending d \<or> k \<in> closed_sessions d)"
    using assms(5)
  proof (induction rule: rtranclp_induct)
    case base
    with assms(1-4) show ?case by simp
  next
    case (step d e)
    from step.hyps(2) step.IH show ?case
      by (cases rule: client_step.cases) (auto simp: client_stop_def client_check_context_def)
  qed
  moreover from d have "\<exists>e. client_step\<^sup>*\<^sup>* d e \<and> point e = Returned ContextDone \<and> k \<in> closed_sessions e"
    by (intro cancelled_returns) auto
  ultimately show ?thesis by auto
qed

definition cancelled_client :: client where
  "cancelled_client = serving_client\<lparr>ctx_done := True, stop_pending := True\<rparr>"

theorem cancel_while_serving_witness:
  "1 \<in> closed_sessions ((client_stop cancelled_client)\<lparr>stop_pending := False\<rparr>) \<and>
   (\<exists>e. client_step\<^sup>*\<^sup>* ((client_stop cancelled_client)\<lparr>stop_pending := False\<rparr>) e \<and> point e = Returned ContextDone)"
proof -
  have c: "point cancelled_client = Serving 1" "session cancelled_client = Some 1"
      "ctx_done cancelled_client" "stop_pending cancelled_client"
    by (simp_all add: cancelled_client_def serving_client_def client_connect_def new_client_def)
  have "client_step\<^sup>*\<^sup>* cancelled_client ((client_stop cancelled_client)\<lparr>stop_pending := False\<rparr>)"
    using c(4) by (intro r_into_rtranclp stopper)
  from cancel_while_serving [OF c this] show ?thesis by auto
qed

text \<open>
  C36: A cancellation that comes while the client is between two connections can be lost:
  \<open>Stop\<close> finds no connection to close, \<open>connect\<close> does not look at the context, and the client
  goes on to serve a connection that nobody is left to close.
\<close>

theorem cancellation_lost:
  "\<exists>c. client_step\<^sup>*\<^sup>* new_client c \<and> ctx_done c \<and> \<not> stop_pending c \<and>
     point c = Serving 1 \<and> session c = Some 1 \<and> closed_sessions c = {}"
proof -
  let ?cancelled = "new_client\<lparr>ctx_done := True, stop_pending := True\<rparr>"
  let ?stopped = "(client_stop ?cancelled)\<lparr>stop_pending := False\<rparr>"
  let ?c = "client_connect (Inr 1) ?stopped"
  have "client_step new_client ?cancelled" by (rule cancel) (simp add: new_client_def)
  moreover have "client_step ?cancelled ?stopped" by (rule stopper) simp
  moreover have "client_step ?stopped ?c" by (rule connect) (simp add: new_client_def client_stop_def)
  ultimately have "client_step\<^sup>*\<^sup>* new_client ?c"
    by (meson r_into_rtranclp rtranclp.rtrancl_into_rtrancl)
  then show ?thesis
    by (intro exI [of _ ?c]) (simp add: client_connect_def client_stop_def new_client_def)
qed

end
