(* ===== verification/Commands.thy ===== *)
theory Commands
  imports MainCmd ServerCmd ClientCmd Client
begin

text \<open>
  The two long-running commands as the entry point sees them: what \<open>Execute\<close> of the server and
  of the client (cmd/server/options.go, cmd/client/options.go) return at the end of \<open>Start\<close>, and
  the exit status \<open>main\<close> makes of it. \<open>None\<close> is a command that has not returned.
\<close>

definition server_command :: "(server_cmd_error \<Rightarrow> string) \<Rightarrow> (start_error \<Rightarrow> string) \<Rightarrow> (string \<Rightarrow> string)
    \<Rightarrow> server_crypto \<Rightarrow> net_listen \<Rightarrow> server_options \<Rightarrow> listener set \<Rightarrow> accepted list \<Rightarrow> cmd_result option" where
  "server_command text start_text uni e lsn opts opened accepts =
     (case execute_server uni e lsn opts opened of
        Inl err \<Rightarrow> Some (RunFailed (text err))
      | Inr (tls, cfg, net, r) \<Rightarrow>
          (case fst (server_start lsn cfg accepts net) of
             Some err \<Rightarrow> Some (RunFailed (start_text err))
           | None \<Rightarrow> None))"

text \<open>The client's \<open>Start\<close> is at the point \<open>c\<close>; a panic does not return either.\<close>

definition client_command :: "(client_cmd_error \<Rightarrow> string) \<Rightarrow> (client_exit \<Rightarrow> string) \<Rightarrow> execution \<Rightarrow> client
    \<Rightarrow> cmd_result option" where
  "client_command text exit_text x c =
     (case x of
        ExecError err \<Rightarrow> Some (RunFailed (text err))
      | ExecPanic \<Rightarrow> None
      | Printed out \<Rightarrow> Some MainCmd.Finished
      | StartClient st \<Rightarrow>
          (case point c of Returned e \<Rightarrow> Some (RunFailed (exit_text e)) | _ \<Rightarrow> None))"

text \<open>A server command that returns has failed, and so has a client command that has started.\<close>

lemma server_command_fails:
  "server_command text start_text uni e lsn opts opened accepts = Some res \<Longrightarrow> \<exists>err. res = RunFailed err"
  by (auto simp: server_command_def split: sum.splits option.splits prod.splits)

lemma server_command_stopped:
  assumes "execute_server uni e lsn opts opened = Inr (tls, cfg, net, r)"
    and "fst (start_http lsn cfg net) = None"
  shows "server_command text start_text uni e lsn opts opened (map Accepted cs @ [AcceptClosed])
    = Some (RunFailed (start_text ListenerClosed))"
proof -
  have "accept_loop id (map Accepted cs @ [AcceptClosed]) = (cs, True)" by (induction cs) auto
  with assms show ?thesis by (auto simp: server_command_def server_start_def split: prod.split option.split)
qed

text \<open>
  C37: An orderly stop is reported as a failure. When a signal cancels the context, the server
  closes its listener and \<open>Start\<close> returns the error of the closed listener, the client's
  \<open>Start\<close> returns the error of the context, and both commands hand it on: whatever was served
  until then, the program prints an error and exits with status 1.
\<close>

theorem stopped_program_reports_failure:
  assumes "execute_server uni e lsn opts opened = Inr (tls, cfg, net, r)"
    and "fst (start_http lsn cfg net) = None"
    and "server_command text start_text uni e lsn opts opened (map Accepted cs @ [AcceptClosed]) = Some sres"
    and "point c = Returned ContextDone"
    and "client_command ctext exit_text (StartClient st) c = Some cres"
  shows "main_run False (''server'' # sargs) (\<lambda>_. cres) (\<lambda>_. sres) ca
      = ([Banner, Version, Fatal (''ERROR: '' @ start_text ListenerClosed)], 1) \<and>
    main_run False (''client'' # cargs) (\<lambda>_. cres) (\<lambda>_. sres) ca
      = ([Banner, Version, Fatal (exit_text ContextDone)], 1)"
proof -
  have "sres = RunFailed (start_text ListenerClosed)"
    using server_command_stopped [OF assms(1,2)] assms(3) by simp
  moreover have "cres = RunFailed (exit_text ContextDone)" using assms(4,5) by (simp add: client_command_def)
  ultimately show ?thesis by (simp add: main_run_def)
qed

definition stopped_client :: client where
  "stopped_client = cancelled_client\<lparr>point := Returned ContextDone\<rparr>"

lemma listed_no_http:
  "execute_server id sample_crypto sample_listen listed_options {} = Inr (tls, cfg, net, r) \<Longrightarrow>
     fst (start_http lsn cfg net) = None"
  by (auto simp: execute_server_def start_http_def command_config_def listed_options_def
      default_server_options_def split: sum.splits if_splits)

theorem stopped_program_reports_failure_witness:
  "server_command (\<lambda>_. []) (\<lambda>_. ''closed'') id sample_crypto sample_listen listed_options {}
      (map Accepted [1, 2] @ [AcceptClosed]) = Some (RunFailed ''closed'') \<and>
   snd (main_run False [''server''] (\<lambda>_. RunFailed ''canceled'') (\<lambda>_. RunFailed ''closed'') (\<lambda>_. MainCmd.Finished)) = 1 \<and>
   snd (main_run False [''client''] (\<lambda>_. RunFailed ''canceled'') (\<lambda>_. RunFailed ''closed'') (\<lambda>_. MainCmd.Finished)) = 1"
proof -
  obtain tls cfg net where x: "execute_server id sample_crypto sample_listen listed_options {}
      = Inr (tls, cfg, net, subscribe zero_ID new_registry)" by (rule listed_execute)
  note http = listed_no_http [OF x, of sample_listen]
  note stop = server_command_stopped [OF x http, of "\<lambda>_. []" "\<lambda>_. ''closed''" "[1, 2]"]
  have point: "point stopped_client = Returned ContextDone" by (simp add: stopped_client_def)
  then have cmd: "client_command (\<lambda>_. []) (\<lambda>_. ''canceled'') (StartClient st) stopped_client
      = Some (RunFailed ''canceled'')" for st
    by (simp add: client_command_def)
  from stopped_program_reports_failure [OF x http stop point cmd, of "[]" "\<lambda>_. MainCmd.Finished" "[]"] stop
  show ?thesis by simp
qed

end
