(* ===== verification/CaPki.thy ===== *)
theory CaPki
  imports Regexps Paths
begin

text \<open>
  The certificate authority (ca/pki.go): the templates of the CA's and the issued
  certificates, the validation of subject alternative names, and the order in which the
  steps fail. Keys, randomness, ASN.1, PEM and the parser of IP addresses belong to Go's
  crypto, encoding and net packages and are arguments; keys are numbers.
\<close>

section \<open>Templates\<close>

datatype key_usage = CertSign | CRLSign | DigitalSignature
datatype ext_key_usage = ServerAuth | ClientAuth

record template =
  SerialNumber :: nat
  CommonName :: string
  NotBefore :: int
  NotAfter :: int
  IsCA :: bool
  KeyUsage :: "key_usage set"
  ExtKeyUsage :: "ext_key_usage list"
  BasicConstraintsValid :: bool
  IPAddresses :: "string list"
  DNSNames :: "string list"

record pki_env =
  generate_key :: "string + nat"
  draw :: "nat \<Rightarrow> string + nat"
  clock :: int
  create_certificate :: "template \<Rightarrow> template \<Rightarrow> nat \<Rightarrow> nat \<Rightarrow> string + string"
  marshal_key :: "nat \<Rightarrow> string + string"
  pem_encode :: "string \<Rightarrow> string \<Rightarrow> string"
  pem_decode :: "string \<Rightarrow> string option"
  parse_cert :: "string \<Rightarrow> string + template"
  parse_key :: "string \<Rightarrow> string + nat"
  parse_ip :: "string \<Rightarrow> string option"

datatype pki_error =
    KeyFailed string
  | SerialFailed string
  | CreateFailed string
  | MarshalFailed string
  | NoCertPEM
  | BadCert string
  | NotCA
  | NoKeyPEM
  | BadKey string
  | InvalidSAN string

definition random_serial :: "pki_env \<Rightarrow> pki_error + nat" where
  "random_serial e = (case draw e (push_bit 128 1) of Inl err \<Rightarrow> Inl (SerialFailed err) | Inr n \<Rightarrow> Inr n)"

definition encode_pair :: "pki_env \<Rightarrow> string \<Rightarrow> string \<Rightarrow> string \<times> string" where
  "encode_pair e cert_der key_der =
     (pem_encode e ''CERTIFICATE'' cert_der, pem_encode e ''EC PRIVATE KEY'' key_der)"

definition ca_template :: "nat \<Rightarrow> string \<Rightarrow> int \<Rightarrow> int \<Rightarrow> template" where
  "ca_template serial subject now validity =
     \<lparr>SerialNumber = serial, CommonName = subject, NotBefore = now, NotAfter = now + validity,
      IsCA = True, KeyUsage = {CertSign, CRLSign}, ExtKeyUsage = [], BasicConstraintsValid = True,
      IPAddresses = [], DNSNames = []\<rparr>"

definition generate_ca :: "pki_env \<Rightarrow> string \<Rightarrow> int \<Rightarrow> pki_error + (string \<times> string)" where
  "generate_ca e subject validity =
     (case generate_key e of
        Inl err \<Rightarrow> Inl (KeyFailed err)
      | Inr key \<Rightarrow>
        (case random_serial e of
           Inl err \<Rightarrow> Inl err
         | Inr serial \<Rightarrow>
             let t = ca_template serial subject (clock e) validity in
             (case create_certificate e t t key key of
                Inl err \<Rightarrow> Inl (CreateFailed err)
              | Inr cert_der \<Rightarrow>
                  (case marshal_key e key of
                     Inl err \<Rightarrow> Inl (MarshalFailed err)
                   | Inr key_der \<Rightarrow> Inr (encode_pair e cert_der key_der)))))"

section \<open>Subject alternative names\<close>

definition dns_label_rx :: rx where
  "dns_label_rx =
     label_rx [(CHR ''a'', CHR ''z''), (CHR ''A'', CHR ''Z''), (CHR ''0'', CHR ''9'')]
       [(CHR ''a'', CHR ''z''), (CHR ''A'', CHR ''Z''), (CHR ''0'', CHR ''9''), (CHR ''-'', CHR ''-'')]"

definition is_valid_dns_name :: "string \<Rightarrow> bool" where
  "is_valid_dns_name name \<longleftrightarrow>
     \<not> (name = [] \<or> length name > 253) \<and> list_all (rx_match dns_label_rx) (split_byte CHR ''.'' name)"

fun add_sans :: "(string \<Rightarrow> string option) \<Rightarrow> string list \<Rightarrow> template \<Rightarrow> pki_error + template" where
  "add_sans ip [] t = Inr t"
| "add_sans ip (san # sans) t =
     (case ip san of
        Some a \<Rightarrow> add_sans ip sans (t\<lparr>IPAddresses := IPAddresses t @ [a]\<rparr>)
      | None \<Rightarrow>
          if \<not> is_valid_dns_name san then Inl (InvalidSAN san)
          else add_sans ip sans (t\<lparr>DNSNames := DNSNames t @ [san]\<rparr>))"

section \<open>Issuing\<close>

definition parse_ca_key_pair :: "pki_env \<Rightarrow> string \<Rightarrow> string \<Rightarrow> pki_error + (template \<times> nat)" where
  "parse_ca_key_pair e cert_pem key_pem =
     (case pem_decode e cert_pem of
        None \<Rightarrow> Inl NoCertPEM
      | Some cert_der \<Rightarrow>
        (case parse_cert e cert_der of
           Inl err \<Rightarrow> Inl (BadCert err)
         | Inr cert \<Rightarrow>
             if \<not> IsCA cert then Inl NotCA
             else case pem_decode e key_pem of
               None \<Rightarrow> Inl NoKeyPEM
             | Some key_der \<Rightarrow>
                 (case parse_key e key_der of
                    Inl err \<Rightarrow> Inl (BadKey err)
                  | Inr key \<Rightarrow> Inr (cert, key))))"

definition leaf_template :: "nat \<Rightarrow> string \<Rightarrow> int \<Rightarrow> int \<Rightarrow> template" where
  "leaf_template serial name now validity =
     \<lparr>SerialNumber = serial, CommonName = name, NotBefore = now, NotAfter = now + validity,
      IsCA = False, KeyUsage = {DigitalSignature}, ExtKeyUsage = [ServerAuth, ClientAuth],
      BasicConstraintsValid = False, IPAddresses = [], DNSNames = []\<rparr>"

definition issue_cert :: "pki_env \<Rightarrow> string \<Rightarrow> string \<Rightarrow> string \<Rightarrow> string list \<Rightarrow> int
    \<Rightarrow> pki_error + (string \<times> string)" where
  "issue_cert e ca_cert_pem ca_key_pem name sans validity =
     (case parse_ca_key_pair e ca_cert_pem ca_key_pem of
        Inl err \<Rightarrow> Inl err
      | Inr (ca_cert, ca_key) \<Rightarrow>
        (case generate_key e of
           Inl err \<Rightarrow> Inl (KeyFailed err)
         | Inr key \<Rightarrow>
           (case random_serial e of
              Inl err \<Rightarrow> Inl err
            | Inr serial \<Rightarrow>
              (case add_sans (parse_ip e) sans (leaf_template serial name (clock e) validity) of
                 Inl err \<Rightarrow> Inl err
               | Inr t \<Rightarrow>
                 (case create_certificate e t ca_cert key ca_key of
                    Inl err \<Rightarrow> Inl (CreateFailed err)
                  | Inr cert_der \<Rightarrow>
                      (case marshal_key e key of
                         Inl err \<Rightarrow> Inl (MarshalFailed err)
                       | Inr key_der \<Rightarrow> Inr (encode_pair e cert_der key_der)))))))"

section \<open>What the checks establish\<close>

definition dns_char :: "char \<Rightarrow> bool" where
  "dns_char c \<longleftrightarrow> char_between CHR ''a'' CHR ''z'' c \<or> char_between CHR ''A'' CHR ''Z'' c \<or>
     char_between CHR ''0'' CHR ''9'' c \<or> c = CHR ''-''"

definition dns_label :: "string \<Rightarrow> bool" where
  "dns_label s \<longleftrightarrow> 1 \<le> length s \<and> length s \<le> 63 \<and> list_all dns_char s \<and>
     hd s \<noteq> CHR ''-'' \<and> last s \<noteq> CHR ''-''"

lemma dns_label_rx_iff: "rx_match dns_label_rx s \<longleftrightarrow> dns_label s"
proof -
  let ?edge = "[(CHR ''a'', CHR ''z''), (CHR ''A'', CHR ''Z''), (CHR ''0'', CHR ''9'')]"
  let ?inner = "[(CHR ''a'', CHR ''z''), (CHR ''A'', CHR ''Z''), (CHR ''0'', CHR ''9''), (CHR ''-'', CHR ''-'')]"
  have inner: "in_class ?inner = dns_char"
    by (rule ext) (auto simp: in_class_def dns_char_def char_between_def)
  have "in_class ?edge c \<longleftrightarrow> in_class ?inner c \<and> c \<noteq> CHR ''-''" for c
    by (auto simp: in_class_def char_between_def)
  then have "rx_match (label_rx ?edge ?inner) s \<longleftrightarrow> is_label (in_class ?inner) s"
    by (rule rx_match_label_iff)
  then show ?thesis
    by (auto simp: dns_label_rx_def is_label_def inner dns_label_def Suc_le_eq)
qed

lemma dns_label_no_dot: "dns_label s \<Longrightarrow> CHR ''.'' \<notin> set s"
  by (auto simp: dns_label_def list_all_iff dns_char_def char_between_def)

text \<open>
  The test for DNS names accepts exactly the dot-separated sequences of labels of
  letters, digits and inner hyphens, each of 1 to 63 characters, of at most 253 characters
  in all.
\<close>

theorem is_valid_dns_name_iff:
  "is_valid_dns_name name \<longleftrightarrow>
     length name \<le> 253 \<and> (\<exists>ls. ls \<noteq> [] \<and> list_all dns_label ls \<and> name = join_byte CHR ''.'' ls)"
proof
  assume v: "is_valid_dns_name name"
  then have "list_all dns_label (split_byte CHR ''.'' name)"
    by (simp add: is_valid_dns_name_def list_all_iff dns_label_rx_iff)
  with v show "length name \<le> 253 \<and> (\<exists>ls. ls \<noteq> [] \<and> list_all dns_label ls \<and> name = join_byte CHR ''.'' ls)"
    by (intro conjI exI [of _ "split_byte CHR ''.'' name"])
      (auto simp: is_valid_dns_name_def split_byte_join)
next
  assume "length name \<le> 253 \<and> (\<exists>ls. ls \<noteq> [] \<and> list_all dns_label ls \<and> name = join_byte CHR ''.'' ls)"
  then obtain ls where ls: "length name \<le> 253" "ls \<noteq> []" "list_all dns_label ls"
      "name = join_byte CHR ''.'' ls" by blast
  then have split: "split_byte CHR ''.'' name = ls"
    by (simp add: join_byte_split list_all_iff dns_label_no_dot)
  have "name \<noteq> []" using split ls(3) by (auto simp: dns_label_def)
  with ls split show "is_valid_dns_name name"
    by (simp add: is_valid_dns_name_def list_all_iff dns_label_rx_iff)
qed

lemma add_sans_Inr_iff:
  "add_sans ip sans t = Inr t' \<longleftrightarrow>
     t' = t\<lparr>IPAddresses := IPAddresses t @ List.map_filter ip sans,
            DNSNames := DNSNames t @ filter (\<lambda>s. ip s = None) sans\<rparr> \<and>
     list_all is_valid_dns_name (filter (\<lambda>s. ip s = None) sans)"
  by (induction ip sans t rule: add_sans.induct)
    (auto simp: map_filter_simps split: option.split)

text \<open>
  C35: An issued certificate is signed with the key of a certificate that is a CA's, is not a
  CA's itself, serves for both roles, carries the requested name and validity, and has
  exactly the requested alternative names, as IP address where they parse as one and as DNS
  name otherwise, in order; its key file holds the key it was made for. Nothing is issued if
  any name is neither.
\<close>

theorem issued_certificate:
  assumes "issue_cert e ca_cert_pem ca_key_pem name sans validity = Inr (cert, key_pem)"
  shows "\<exists>ca ca_key key t der key_der. parse_ca_key_pair e ca_cert_pem ca_key_pem = Inr (ca, ca_key) \<and> IsCA ca \<and>
    generate_key e = Inr key \<and> create_certificate e t ca key ca_key = Inr der \<and>
    marshal_key e key = Inr key_der \<and>
    cert = pem_encode e ''CERTIFICATE'' der \<and> key_pem = pem_encode e ''EC PRIVATE KEY'' key_der \<and>
    \<not> IsCA t \<and> CommonName t = name \<and> NotBefore t = clock e \<and> NotAfter t = clock e + validity \<and>
    set (ExtKeyUsage t) = {ServerAuth, ClientAuth} \<and>
    IPAddresses t = List.map_filter (parse_ip e) sans \<and>
    DNSNames t = filter (\<lambda>s. parse_ip e s = None) sans \<and> list_all is_valid_dns_name (DNSNames t)"
proof -
  from assms obtain ca ca_key key serial t der key_der where
    "parse_ca_key_pair e ca_cert_pem ca_key_pem = Inr (ca, ca_key)"
    "generate_key e = Inr key" "random_serial e = Inr serial"
    and t: "add_sans (parse_ip e) sans (leaf_template serial name (clock e) validity) = Inr t"
    and "create_certificate e t ca key ca_key = Inr der" "marshal_key e key = Inr key_der"
    and "(cert, key_pem) = encode_pair e der key_der"
    by (auto simp: issue_cert_def split: sum.splits prod.splits)
  moreover from this(1) have "IsCA ca"
    by (auto simp: parse_ca_key_pair_def split: option.splits sum.splits if_splits)
  moreover from t have "t = (leaf_template serial name (clock e) validity)
      \<lparr>IPAddresses := List.map_filter (parse_ip e) sans, DNSNames := filter (\<lambda>s. parse_ip e s = None) sans\<rparr>"
      "list_all is_valid_dns_name (filter (\<lambda>s. parse_ip e s = None) sans)"
    by (auto simp: add_sans_Inr_iff leaf_template_def)
  ultimately show ?thesis
    by (intro exI [of _ ca] exI [of _ ca_key] exI [of _ key] exI [of _ t] exI [of _ der] exI [of _ key_der])
      (auto simp: leaf_template_def encode_pair_def)
qed

text \<open>A PKI whose encodings are trivial.\<close>

definition sample_pki :: pki_env where
  "sample_pki = \<lparr>generate_key = Inr 7, draw = (\<lambda>n. Inr (n - 1)), clock = 0,
     create_certificate = (\<lambda>t p k s. Inr (CommonName t)), marshal_key = (\<lambda>k. Inr ''key''),
     pem_encode = (\<lambda>ty b. b), pem_decode = Some,
     parse_cert = (\<lambda>b. Inr (ca_template 1 b 0 10)), parse_key = (\<lambda>b. Inr 3),
     parse_ip = (\<lambda>s. if s = ''10.0.0.1'' then Some ''ip'' else None)\<rparr>"

theorem issued_certificate_witness:
  "issue_cert sample_pki ''ca'' ''cakey'' ''server'' [''10.0.0.1''] 10 = Inr (''server'', ''key'') \<and>
   IsCA (ca_template 1 ''ca'' 0 10)"
proof -
  have r: "issue_cert sample_pki ''ca'' ''cakey'' ''server'' [''10.0.0.1''] 10 = Inr (''server'', ''key'')"
    by (simp add: issue_cert_def sample_pki_def parse_ca_key_pair_def ca_template_def random_serial_def
        leaf_template_def encode_pair_def)
  from issued_certificate [OF r] have "IsCA (ca_template 1 ''ca'' 0 10)"
    by (auto simp: sample_pki_def parse_ca_key_pair_def split: if_splits)
  with r show ?thesis by simp
qed

end
