(* ===== verification/CaCmd.thy ===== *)
theory CaCmd
  imports CaPki Utils Ids
begin

text \<open>
  The ca command (cmd/ca/options.go): its arguments, the writing of a key pair, and the two
  subcommands as functions on a file system, a map from paths to contents and permission
  bits. How each write ends is an argument: a write may fail before it opens the file or
  after some bytes. A file that is created gets the requested bits less those of the umask.
\<close>

section \<open>Files\<close>

record disk_file =
  content :: string
  mode :: "32 word"

type_synonym fs = "string \<rightharpoonup> disk_file"

datatype write_outcome = WriteOK | OpenFails string | WriteFails nat string

record os_env =
  os_windows :: bool
  umask :: "32 word"
  outcome :: "string \<Rightarrow> write_outcome"
  mkdir_all :: "string \<Rightarrow> string option"
  can_remove :: "string \<Rightarrow> bool"

unbundle bit_operations_syntax

definition write_file :: "os_env \<Rightarrow> string \<Rightarrow> string \<Rightarrow> 32 word \<Rightarrow> fs \<Rightarrow> string option \<times> fs" where
  "write_file os path data perm fs =
     (let m = (case fs path of Some f \<Rightarrow> mode f | None \<Rightarrow> perm AND NOT (umask os)) in
      case outcome os path of
        WriteOK \<Rightarrow> (None, fs(path \<mapsto> \<lparr>content = data, mode = m\<rparr>))
      | OpenFails err \<Rightarrow> (Some err, fs)
      | WriteFails n err \<Rightarrow> (Some err, fs(path \<mapsto> \<lparr>content = take n data, mode = m\<rparr>)))"

definition stat_mode :: "fs \<Rightarrow> string \<Rightarrow> string + 32 word" where
  "stat_mode fs path = (case fs path of None \<Rightarrow> Inl ''no such file'' | Some f \<Rightarrow> Inr (mode f))"

definition read_content :: "fs \<Rightarrow> string \<Rightarrow> string + string" where
  "read_content fs path = (case fs path of None \<Rightarrow> Inl ''no such file'' | Some f \<Rightarrow> Inr (content f))"

section \<open>Arguments\<close>

record ca_options =
  caDir :: string
  certName :: string
  sanAddr :: string
  outDir :: string
  ca_command :: string

definition default_ca_options :: ca_options where
  "default_ca_options = \<lparr>caDir = ''ca'', certName = [], sanAddr = [], outDir = [], ca_command = []\<rparr>"

datatype ca_args_error =
    InitTakesNoArguments
  | InitDoesNotUse "string list"
  | IssueRequiresName
  | UnknownCommand string

definition ca_complete_args :: "string list \<Rightarrow> string list \<Rightarrow> ca_options \<Rightarrow> ca_args_error option \<times> ca_options" where
  "ca_complete_args visited rest opts =
     (let opts = opts\<lparr>ca_command := (case rest of [] \<Rightarrow> [] | c # _ \<Rightarrow> c)\<rparr> in
      if ca_command opts = ''init'' then
        if length rest > 1 then (Some InitTakesNoArguments, opts)
        else let bad = filter (\<lambda>f. f = ''name'' \<or> f = ''addr'' \<or> f = ''out-dir'') visited in
          (if bad \<noteq> [] then Some (InitDoesNotUse (map (\<lambda>f. ''-'' @ f) bad)) else None, opts)
      else if ca_command opts = ''issue'' then
        if certName opts = [] then (Some IssueRequiresName, opts)
        else (None, if outDir opts = [] then opts\<lparr>outDir := certName opts\<rparr> else opts)
      else (Some (UnknownCommand (ca_command opts)), opts))"

section \<open>Init and issue\<close>

definition ca_validity :: int where
  "ca_validity = 10 * 365 * 24 * (3600 * 10 ^ 9)"

datatype ca_error =
    WriteError string string
  | CAExists string
  | GenerateFailed pki_error
  | MkdirFailed string
  | ReadError string string
  | KeyTooOpen key_error
  | IssueFailed pki_error
  | OutputExists string
  | ParseIssued string

datatype ca_result = CAError ca_error | CACreated string string | Issued string string ID | CAPanic
  | CAUnknownCommand string

definition write_key_pair :: "os_env \<Rightarrow> string \<Rightarrow> string \<Rightarrow> string \<Rightarrow> string \<Rightarrow> fs \<Rightarrow> ca_error option \<times> fs" where
  "write_key_pair os crt_path key_path cert_pem key_pem fs =
     (case write_file os crt_path cert_pem 420 fs of
        (Some err, fs) \<Rightarrow> (Some (WriteError crt_path err), fs)
      | (None, fs) \<Rightarrow>
          (case write_file os key_path key_pem 384 fs of
             (Some err, fs) \<Rightarrow> (Some (WriteError key_path err), if can_remove os crt_path then fs(crt_path := None) else fs)
           | (None, fs) \<Rightarrow> (None, fs)))"

definition execute_init :: "pki_env \<Rightarrow> os_env \<Rightarrow> ca_options \<Rightarrow> fs \<Rightarrow> ca_result \<times> fs" where
  "execute_init e os opts fs =
     (let crt = path_join (caDir opts) ''ca.crt''; key = path_join (caDir opts) ''ca.key'' in
      if fs crt \<noteq> None then (CAError (CAExists crt), fs)
      else if fs key \<noteq> None then (CAError (CAExists key), fs)
      else case generate_ca e ''go-stream-tunnel CA'' ca_validity of
        Inl err \<Rightarrow> (CAError (GenerateFailed err), fs)
      | Inr (cert_pem, key_pem) \<Rightarrow>
          (case mkdir_all os (caDir opts) of
             Some err \<Rightarrow> (CAError (MkdirFailed err), fs)
           | None \<Rightarrow>
               (case write_key_pair os crt key cert_pem key_pem fs of
                  (Some err, fs) \<Rightarrow> (CAError err, fs)
                | (None, fs) \<Rightarrow> (CACreated crt key, fs))))"

definition bytes_of :: "string \<Rightarrow> byte list" where
  "bytes_of s = map of_char s"

text \<open>The second half of \<open>executeIssue\<close>: the output files and the printed fingerprint.\<close>

definition write_issued :: "pki_env \<Rightarrow> os_env \<Rightarrow> (byte list \<Rightarrow> byte list) \<Rightarrow> ca_options
    \<Rightarrow> string \<Rightarrow> string \<Rightarrow> fs \<Rightarrow> ca_result \<times> fs" where
  "write_issued e os sha256 opts cert_pem key_pem fs =
     (let crt = path_join (outDir opts) ''tls.crt''; key = path_join (outDir opts) ''tls.key'' in
      if fs crt \<noteq> None then (CAError (OutputExists crt), fs)
      else if fs key \<noteq> None then (CAError (OutputExists key), fs)
      else case mkdir_all os (outDir opts) of
        Some err \<Rightarrow> (CAError (MkdirFailed err), fs)
      | None \<Rightarrow>
          (case write_key_pair os crt key cert_pem key_pem fs of
             (Some err, fs) \<Rightarrow> (CAError err, fs)
           | (None, fs) \<Rightarrow>
               (case pem_decode e cert_pem of
                  None \<Rightarrow> (CAPanic, fs)
                | Some der \<Rightarrow>
                    (case parse_cert e der of
                       Inl err \<Rightarrow> (CAError (ParseIssued err), fs)
                     | Inr _ \<Rightarrow> (Issued crt key (id_new sha256 (bytes_of der)), fs)))))"

definition execute_issue :: "pki_env \<Rightarrow> os_env \<Rightarrow> (byte list \<Rightarrow> byte list) \<Rightarrow> ca_options \<Rightarrow> fs
    \<Rightarrow> ca_result \<times> fs" where
  "execute_issue e os sha256 opts fs =
     (let ca_crt = path_join (caDir opts) ''ca.crt''; ca_key = path_join (caDir opts) ''ca.key'' in
      case read_content fs ca_crt of
        Inl err \<Rightarrow> (CAError (ReadError ca_crt err), fs)
      | Inr ca_cert_pem \<Rightarrow>
        (case check_private_key_permissions (os_windows os) (stat_mode fs) ca_key of
           Some err \<Rightarrow> (CAError (KeyTooOpen err), fs)
         | None \<Rightarrow>
           (case read_content fs ca_key of
              Inl err \<Rightarrow> (CAError (ReadError ca_key err), fs)
            | Inr ca_key_pem \<Rightarrow>
              (case issue_cert e ca_cert_pem ca_key_pem (certName opts)
                      (if sanAddr opts \<noteq> [] then [sanAddr opts] else []) ca_validity of
                 Inl err \<Rightarrow> (CAError (IssueFailed err), fs)
               | Inr (cert_pem, key_pem) \<Rightarrow> write_issued e os sha256 opts cert_pem key_pem fs))))"

definition execute_ca :: "pki_env \<Rightarrow> os_env \<Rightarrow> (byte list \<Rightarrow> byte list) \<Rightarrow> ca_options \<Rightarrow> fs
    \<Rightarrow> ca_result \<times> fs" where
  "execute_ca e os sha256 opts fs =
     (if ca_command opts = ''init'' then execute_init e os opts fs
      else if ca_command opts = ''issue'' then execute_issue e os sha256 opts fs
      else (CAUnknownCommand (ca_command opts), fs))"

section \<open>Files are never overwritten\<close>

lemma join_byte_snoc: "\<exists>pre. join_byte c (xs @ [f]) = pre @ f"
proof (induction xs)
  case Nil
  then show ?case by simp
next
  case (Cons x xs)
  then obtain pre where "join_byte c (xs @ [f]) = pre @ f" by blast
  then have "join_byte c ((x # xs) @ [f]) = (x @ c # pre) @ f" by (simp add: join_byte_Cons)
  then show ?case by blast
qed

lemma split_byte_last: "c \<notin> set f \<Longrightarrow> split_byte c (d @ c # f) = split_byte c d @ [f]"
proof (induction d)
  case Nil
  then show ?case by (simp add: split_byte_single)
next
  case (Cons x d)
  obtain y ys where "split_byte c d = y # ys" by (cases "split_byte c d") auto
  with Cons show ?case by simp
qed

definition file_name :: "string \<Rightarrow> bool" where
  "file_name f \<longleftrightarrow> f \<noteq> [] \<and> f \<noteq> ''.'' \<and> f \<noteq> ''..'' \<and> slash \<notin> set f"

text \<open>A joined path ends in the file name, so different names give different paths.\<close>

lemma path_join_ends:
  assumes "file_name f"
  shows "\<exists>pre. path_join d f = pre @ f"
proof -
  have clean: "\<exists>pre. path_clean p = pre @ f" if "split_byte slash p = ps @ [f]" for p ps
  proof -
    let ?cs = "rev (foldl (clean_step (is_abs p)) [] ps)"
    have "rev (foldl (clean_step (is_abs p)) [] (split_byte slash p)) = ?cs @ [f]"
      using assms that by (simp add: clean_step_def file_name_def)
    moreover obtain pre where "join_byte slash (?cs @ [f]) = pre @ f" using join_byte_snoc by blast
    ultimately have "path_clean p = (if is_abs p then slash # pre @ f else pre @ f)"
      by (simp add: path_clean_def)
    then have "path_clean p = (if is_abs p then slash # pre else pre) @ f" by simp
    then show ?thesis by blast
  qed
  have "slash \<notin> set f" using assms by (simp add: file_name_def)
  then have "split_byte slash (d @ slash # f) = split_byte slash d @ [f]" "split_byte slash f = [] @ [f]"
    by (simp_all add: split_byte_last split_byte_single)
  from clean [OF this(1)] clean [OF this(2)] assms show ?thesis
    by (auto simp: path_join_def file_name_def)
qed

lemma path_join_distinct:
  assumes "file_name f" "file_name g" "length f = length g" "f \<noteq> g"
  shows "path_join d f \<noteq> path_join d g"
proof -
  obtain p q where "path_join d f = p @ f" "path_join d g = q @ g"
    using path_join_ends assms(1,2) by blast
  with assms(3,4) show ?thesis by simp
qed

lemma key_file_names [simp]:
  "path_join d ''ca.crt'' \<noteq> path_join d ''ca.key''" "path_join d ''tls.crt'' \<noteq> path_join d ''tls.key''"
  by (rule path_join_distinct; simp add: file_name_def)+

lemmas key_file_names' [simp] = key_file_names [symmetric]

lemma write_file_other: "write_file os p data perm fs = (r, fs') \<Longrightarrow> q \<noteq> p \<Longrightarrow> fs' q = fs q"
  by (auto simp: write_file_def Let_def split: write_outcome.splits)

lemma write_key_pair_other:
  assumes "write_key_pair os crt key c k fs = (r, fs')" "q \<noteq> crt" "q \<noteq> key"
  shows "fs' q = fs q"
proof -
  obtain r1 fs1 where w1: "write_file os crt c 420 fs = (r1, fs1)" by fastforce
  obtain r2 fs2 where w2: "write_file os key k 384 fs1 = (r2, fs2)" by fastforce
  from assms(1) w1 w2 have "fs' = fs1 \<or> fs' = fs2 \<or> fs' = fs2(crt := None)"
    by (auto simp: write_key_pair_def split: option.splits)
  with write_file_other [OF w1, of q] write_file_other [OF w2, of q] assms(2,3) show ?thesis by auto
qed

lemma write_key_pair_keeps:
  assumes "write_key_pair os crt key c k fs = (r, f)" "fs crt = None" "fs key = None"
  shows "fs \<subseteq>\<^sub>m f"
  unfolding map_le_def
proof
  fix q
  assume "q \<in> dom fs"
  with assms(2,3) have "q \<noteq> crt" "q \<noteq> key" by (auto simp: domIff)
  with write_key_pair_other [OF assms(1)] show "fs q = f q" by simp
qed

lemma execute_init_keeps: "execute_init e os opts fs = (r, f) \<Longrightarrow> fs \<subseteq>\<^sub>m f"
  by (auto simp: execute_init_def Let_def dest: write_key_pair_keeps
      split: if_splits sum.splits prod.splits option.splits)

lemma write_issued_keeps: "write_issued e os sha256 opts c k fs = (r, f) \<Longrightarrow> fs \<subseteq>\<^sub>m f"
  by (auto simp: write_issued_def Let_def dest: write_key_pair_keeps
      split: if_splits sum.splits prod.splits option.splits)

lemma execute_issue_cases:
  "execute_issue e os sha256 opts fs = (r, f) \<Longrightarrow>
     f = fs \<and> (\<exists>err. r = CAError err) \<or> (\<exists>c k. write_issued e os sha256 opts c k fs = (r, f))"
  by (auto simp: execute_issue_def Let_def split: sum.splits prod.splits option.splits)

lemma execute_issue_keeps: "execute_issue e os sha256 opts fs = (r, f) \<Longrightarrow> fs \<subseteq>\<^sub>m f"
  using execute_issue_cases write_issued_keeps by fastforce

text \<open>
  C34: The ca command never changes or removes a file that exists: whatever the subcommand,
  the options, the keys and the way each write ends, every file from before is there
  afterwards with the same content and permissions.
\<close>

theorem ca_never_overwrites:
  assumes "execute_ca e os sha256 opts fs = (res, fs')"
  shows "fs \<subseteq>\<^sub>m fs'"
proof -
  consider "execute_init e os opts fs = (res, fs')" | "execute_issue e os sha256 opts fs = (res, fs')" | "fs' = fs"
    using assms by (auto simp: execute_ca_def split: if_splits)
  then show ?thesis
  proof cases
    case 1
    then show ?thesis by (rule execute_init_keeps)
  next
    case 2
    then show ?thesis by (rule execute_issue_keeps)
  next
    case 3
    then show ?thesis by simp
  qed
qed

section \<open>What a successful run leaves behind\<close>

lemma private_mode [simp]: "((384 AND NOT u) AND 511) AND 63 = (0 :: 32 word)"
proof -
  have "((384 AND NOT u) AND 511) AND 63 = (384 AND 63) AND (NOT u AND (511 :: 32 word))"
    by (simp only: and.assoc and.left_commute and.commute)
  also have "(384 AND 63 :: 32 word) = 0" by simp
  finally show ?thesis by simp
qed

lemma write_key_pair_result:
  assumes "write_key_pair os crt key c k fs = (r, fs')" "fs crt = None" "fs key = None" "crt \<noteq> key"
  shows "case r of
      None \<Rightarrow> fs' = fs(crt \<mapsto> \<lparr>content = c, mode = 420 AND NOT (umask os)\<rparr>,
                        key \<mapsto> \<lparr>content = k, mode = 384 AND NOT (umask os)\<rparr>)
    | Some err \<Rightarrow> (outcome os crt = WriteOK \<longrightarrow> can_remove os crt \<longrightarrow> fs' crt = None) \<and>
        (outcome os crt \<noteq> WriteOK \<longrightarrow> fs' key = None) \<and>
        (\<forall>n e. outcome os crt = WriteFails n e \<longrightarrow>
           fs' crt = Some \<lparr>content = take n c, mode = 420 AND NOT (umask os)\<rparr>)"
  using assms
  by (auto simp: write_key_pair_def write_file_def Let_def split: write_outcome.splits option.splits)

lemma execute_init_CACreated:
  assumes "execute_init e os opts fs = (CACreated crt key, fs')"
  shows "crt = path_join (caDir opts) ''ca.crt'' \<and> key = path_join (caDir opts) ''ca.key'' \<and>
    (\<exists>c k. generate_ca e ''go-stream-tunnel CA'' ca_validity = Inr (c, k) \<and>
       fs' = fs(crt \<mapsto> \<lparr>content = c, mode = 420 AND NOT (umask os)\<rparr>,
                key \<mapsto> \<lparr>content = k, mode = 384 AND NOT (umask os)\<rparr>))"
proof -
  let ?crt = "path_join (caDir opts) ''ca.crt''" and ?key = "path_join (caDir opts) ''ca.key''"
  from assms obtain c k where ck: "fs ?crt = None" "fs ?key = None"
      "generate_ca e ''go-stream-tunnel CA'' ca_validity = Inr (c, k)"
      "write_key_pair os ?crt ?key c k fs = (None, fs')" "crt = ?crt" "key = ?key"
    by (auto simp: execute_init_def Let_def split: if_splits sum.splits prod.splits option.splits)
  from write_key_pair_result [OF ck(4,1,2)] ck show ?thesis by simp
qed

lemma execute_issue_Issued:
  assumes "execute_issue e os sha256 opts fs = (Issued crt key ident, fs')"
  shows "\<exists>cert der. read_content fs' crt = Inr cert \<and> pem_decode e cert = Some der \<and>
    ident = id_new sha256 (bytes_of der) \<and>
    check_private_key_permissions windows (stat_mode fs') key = None"
proof -
  let ?crt = "path_join (outDir opts) ''tls.crt''" and ?key = "path_join (outDir opts) ''tls.key''"
  from execute_issue_cases [OF assms] obtain c k where
    "write_issued e os sha256 opts c k fs = (Issued crt key ident, fs')" by blast
  then obtain der where ck: "fs ?crt = None" "fs ?key = None"
      "write_key_pair os ?crt ?key c k fs = (None, fs')" "crt = ?crt" "key = ?key"
      "pem_decode e c = Some der" "ident = id_new sha256 (bytes_of der)"
    by (auto simp: write_issued_def Let_def split: if_splits sum.splits prod.splits option.splits)
  from write_key_pair_result [OF ck(3,1,2)] ck(4-7) show ?thesis
    by (auto simp: read_content_def check_private_key_permissions_def stat_mode_def)
qed

text \<open>
  A CA that has been created is one that \<open>issue\<close> can use: it finds exactly the
  certificate and key that were generated, and the key file passes the permission test
  that \<open>issue\<close> and the other commands make, whatever the umask is.
\<close>

theorem created_ca_usable:
  assumes "execute_init e os opts fs = (CACreated crt key, fs')"
  shows "\<exists>c k. generate_ca e ''go-stream-tunnel CA'' ca_validity = Inr (c, k) \<and>
    read_content fs' (path_join (caDir opts) ''ca.crt'') = Inr c \<and>
    read_content fs' (path_join (caDir opts) ''ca.key'') = Inr k \<and>
    check_private_key_permissions windows (stat_mode fs') (path_join (caDir opts) ''ca.key'') = None"
  using execute_init_CACreated [OF assms]
  by (auto simp: read_content_def check_private_key_permissions_def stat_mode_def)

definition sample_os :: os_env where
  "sample_os = \<lparr>os_windows = False, umask = 18, outcome = (\<lambda>_. WriteOK), mkdir_all = (\<lambda>_. None),
     can_remove = (\<lambda>_. True)\<rparr>"

lemma sample_init:
  "execute_init sample_pki sample_os default_ca_options Map.empty =
     (CACreated (path_join ''ca'' ''ca.crt'') (path_join ''ca'' ''ca.key''),
      [path_join ''ca'' ''ca.crt'' \<mapsto> \<lparr>content = ''go-stream-tunnel CA'', mode = 420\<rparr>,
       path_join ''ca'' ''ca.key'' \<mapsto> \<lparr>content = ''key'', mode = 384\<rparr>])"
  by (simp add: execute_init_def default_ca_options_def generate_ca_def sample_pki_def sample_os_def
      random_serial_def ca_template_def encode_pair_def write_key_pair_def write_file_def Let_def)

theorem created_ca_usable_witness:
  "check_private_key_permissions False (stat_mode (snd (execute_init sample_pki sample_os default_ca_options
     Map.empty))) (path_join ''ca'' ''ca.key'') = None"
  using created_ca_usable [OF sample_init, of False] unfolding sample_init snd_conv
  by (auto simp: default_ca_options_def)

theorem ca_never_overwrites_witness:
  "[''ca/other'' \<mapsto> \<lparr>content = ''x'', mode = 420\<rparr>] \<subseteq>\<^sub>m
     snd (execute_ca sample_pki sample_os (\<lambda>_. []) (default_ca_options\<lparr>ca_command := ''init''\<rparr>)
       [''ca/other'' \<mapsto> \<lparr>content = ''x'', mode = 420\<rparr>])"
  using ca_never_overwrites [of sample_pki sample_os "\<lambda>_. []" "default_ca_options\<lparr>ca_command := ''init''\<rparr>"
      "[''ca/other'' \<mapsto> \<lparr>content = ''x'', mode = 420\<rparr>]"]
  by (metis prod.collapse)

text \<open>
  A certificate that could not be written completely stays: the clean-up only covers a
  failing key. The part that was written makes every later \<open>init\<close> refuse to run, because a
  CA seems to exist.
\<close>

theorem partial_certificate_blocks_init:
  assumes "outcome os (path_join (caDir opts) ''ca.crt'') = WriteFails n err"
    and "fs (path_join (caDir opts) ''ca.crt'') = None" and "fs (path_join (caDir opts) ''ca.key'') = None"
    and "generate_ca e ''go-stream-tunnel CA'' ca_validity = Inr (c, k)" and "mkdir_all os (caDir opts) = None"
    and "execute_init e os opts fs = (res, fs')"
  shows "res = CAError (WriteError (path_join (caDir opts) ''ca.crt'') err) \<and>
    read_content fs' (path_join (caDir opts) ''ca.crt'') = Inr (take n c) \<and>
    execute_init e' os' opts fs' = (CAError (CAExists (path_join (caDir opts) ''ca.crt'')), fs')"
proof -
  let ?crt = "path_join (caDir opts) ''ca.crt''"
  let ?fs = "fs(?crt \<mapsto> \<lparr>content = take n c, mode = 420 AND NOT (umask os)\<rparr>)"
  have "execute_init e os opts fs = (CAError (WriteError ?crt err), ?fs)"
    using assms(1-5) by (simp add: execute_init_def write_key_pair_def write_file_def Let_def)
  with assms(6) have "res = CAError (WriteError ?crt err)" "fs' = ?fs" by simp_all
  moreover have "execute_init e' os' opts ?fs = (CAError (CAExists ?crt), ?fs)"
    by (simp add: execute_init_def Let_def)
  ultimately show ?thesis by (simp add: read_content_def)
qed

theorem partial_certificate_blocks_init_witness:
  "fst (execute_init sample_pki (sample_os\<lparr>outcome := (\<lambda>_. WriteFails 3 ''no space left'')\<rparr>) default_ca_options
     Map.empty) = CAError (WriteError (path_join ''ca'' ''ca.crt'') ''no space left'')"
proof -
  let ?os = "sample_os\<lparr>outcome := (\<lambda>_. WriteFails 3 ''no space left'')\<rparr>"
  have g: "generate_ca sample_pki ''go-stream-tunnel CA'' ca_validity = Inr (''go-stream-tunnel CA'', ''key'')"
    by (simp add: generate_ca_def sample_pki_def random_serial_def ca_template_def encode_pair_def)
  obtain r f where rf: "execute_init sample_pki ?os default_ca_options Map.empty = (r, f)" by fastforce
  from partial_certificate_blocks_init [OF _ _ _ g _ rf] rf show ?thesis
    by (simp add: sample_os_def default_ca_options_def)
qed

end
