(* ===== verification/LogPkg.thy ===== *)
theory LogPkg
  imports Main
begin

text \<open>
  Package log: a message is an alternating list of keys and values; a value is a string, an
  int or anything else. The filter passes a message on unless its level is too high; a
  context adds its own keys and values around those of the message.
\<close>

datatype 'a val = Str string | Level int | Other 'a

fun filter_log :: "int \<Rightarrow> 'a val list \<Rightarrow> bool" where
  "filter_log level [] = True"
| "filter_log level (Str k # rest) =
     (if k \<noteq> ''level'' then filter_log level (drop 1 rest)
      else case rest of
        [] \<Rightarrow> True
      | Level l # rest' \<Rightarrow> if l > level then False else filter_log level rest'
      | _ \<Rightarrow> True)"
| "filter_log level (_ # rest) = filter_log level (drop 1 rest)"

text \<open>
  A logger is what its \<open>Log\<close> makes of a message: the lines that are printed in the end. One
  prints nothing, one prints every message, and the filter asks the logger it wraps.
\<close>

type_synonym 'a logger = "'a val list \<Rightarrow> 'a val list list"

definition nop_logger :: "'a logger" where
  "nop_logger keyvals = []"

definition std_logger :: "'a logger" where
  "std_logger keyvals = [keyvals]"

definition filter_logger :: "int \<Rightarrow> 'a logger \<Rightarrow> 'a logger" where
  "filter_logger level lg keyvals = (if filter_log level keyvals then lg keyvals else [])"

record 'a log_context =
  log_prefix :: "'a val list"
  log_suffix :: "'a val list"

definition new_context :: "'a log_context" where
  "new_context = \<lparr>log_prefix = [], log_suffix = []\<rparr>"

definition context_with :: "'a val list \<Rightarrow> 'a log_context \<Rightarrow> 'a log_context" where
  "context_with keyvals c = c\<lparr>log_suffix := log_suffix c @ keyvals\<rparr>"

definition context_with_prefix :: "'a val list \<Rightarrow> 'a log_context \<Rightarrow> 'a log_context" where
  "context_with_prefix keyvals c = c\<lparr>log_prefix := log_prefix c @ keyvals\<rparr>"

definition context_log :: "'a log_context \<Rightarrow> 'a val list \<Rightarrow> 'a val list" where
  "context_log c keyvals = log_prefix c @ keyvals @ log_suffix c"

text \<open>The messages the program logs: pairs whose keys are strings.\<close>

fun pairs :: "(string \<times> 'a val) list \<Rightarrow> 'a val list" where
  "pairs [] = []"
| "pairs ((k, v) # kvs) = Str k # v # pairs kvs"

lemma pairs_append [simp]: "pairs (xs @ ys) = pairs xs @ pairs ys"
  by (induction xs rule: pairs.induct) auto

text \<open>The level entries of a message, up to the first one that is not a number.\<close>

fun levels :: "(string \<times> 'a val) list \<Rightarrow> int list" where
  "levels [] = []"
| "levels ((k, v) # kvs) =
     (if k = ''level'' then (case v of Level l \<Rightarrow> l # levels kvs | _ \<Rightarrow> []) else levels kvs)"

lemma filter_log_pairs: "filter_log level (pairs kvs) \<longleftrightarrow> list_all (\<lambda>l. l \<le> level) (levels kvs)"
  by (induction kvs rule: levels.induct) (auto split: val.splits)

text \<open>
  A message that goes through a context to the filter is logged unless one of its
  levels, up to the first one that is not a number, is above the threshold, and then once
  and complete: prefix, message and suffix in this order. In particular a message without a
  level always passes.
\<close>

theorem context_filter:
  "filter_logger level std_logger
      (context_log (context_with (pairs post) (context_with_prefix (pairs pre) new_context)) (pairs kvs)) =
    (if list_all (\<lambda>l. l \<le> level) (levels (pre @ kvs @ post)) then [pairs (pre @ kvs @ post)] else [])"
  using filter_log_pairs [of level "pre @ kvs @ post"]
  by (simp add: filter_logger_def std_logger_def context_log_def context_with_def context_with_prefix_def new_context_def)

text \<open>A later prefix comes after an earlier one.\<close>

lemma with_prefix_order:
  "log_prefix (context_with_prefix b (context_with_prefix a c)) = log_prefix c @ a @ b"
  by (simp add: context_with_prefix_def)

end
