(* ===== verification/LogSlices.thy ===== *)
theory LogSlices
  imports LogPkg
begin

text \<open>
  The contexts of package log once more, with the memory their slices live in: \<open>With\<close> and
  \<open>WithPrefix\<close> append to a slice of the receiver, and \<open>append\<close> writes into the receiver's
  backing array when that has room. \<open>LogPkg\<close> has the same operations on values.
\<close>

section \<open>Slices\<close>

text \<open>
  Backing arrays by number, of which the first \<open>next_array\<close> are in use. A slice starts at the
  beginning of its array, whose length is its capacity. How much room a new array gets is
  the runtime's choice: \<open>grow\<close> is what it adds to the length that is needed.
\<close>

record 'a memory =
  arrays :: "nat \<Rightarrow> 'a list"
  next_array :: nat

record slice =
  array :: nat
  slice_len :: nat

definition slice_ok :: "'a memory \<Rightarrow> slice \<Rightarrow> bool" where
  "slice_ok m s \<longleftrightarrow> array s < next_array m \<and> slice_len s \<le> length (arrays m (array s))"

definition contents :: "'a memory \<Rightarrow> slice \<Rightarrow> 'a list" where
  "contents m s = take (slice_len s) (arrays m (array s))"

definition slice_append :: "(nat \<Rightarrow> 'a list) \<Rightarrow> slice \<Rightarrow> 'a list \<Rightarrow> 'a memory \<Rightarrow> slice \<times> 'a memory" where
  "slice_append grow s xs m =
     (let n = slice_len s + length xs; a = arrays m (array s) in
      if n \<le> length a
      then (s\<lparr>slice_len := n\<rparr>, m\<lparr>arrays := (arrays m)(array s := contents m s @ xs @ drop n a)\<rparr>)
      else (\<lparr>array = next_array m, slice_len = n\<rparr>,
            m\<lparr>arrays := (arrays m)(next_array m := contents m s @ xs @ grow n),
              next_array := Suc (next_array m)\<rparr>))"

text \<open>A slice survives an append unless it reads the cells that are written.\<close>

definition keeps_clear :: "slice \<Rightarrow> slice \<Rightarrow> bool" where
  "keeps_clear t s \<longleftrightarrow> array t \<noteq> array s \<or> slice_len t \<le> slice_len s"

lemma keeps_clear_refl [simp]: "keeps_clear s s"
  by (simp add: keeps_clear_def)

lemma contents_length: "slice_ok m s \<Longrightarrow> length (contents m s) = slice_len s"
  by (simp add: slice_ok_def contents_def)

lemma slice_append_contents:
  assumes "slice_ok m s" "slice_append grow s xs m = (s', m')"
  shows "contents m' s' = contents m s @ xs" "slice_ok m' s'"
proof -
  have "length (contents m s) = slice_len s" using assms(1) by (rule contents_length)
  then show "contents m' s' = contents m s @ xs" "slice_ok m' s'"
    using assms
    by (auto simp: slice_append_def slice_ok_def contents_def Let_def split: if_splits)
qed

lemma slice_append_others:
  assumes "slice_ok m s" "slice_append grow s xs m = (s', m')" "slice_ok m t"
  shows "slice_ok m' t" "keeps_clear t s \<Longrightarrow> contents m' t = contents m t"
proof -
  have len: "length (contents m s) = slice_len s" using assms(1) by (rule contents_length)
  show "slice_ok m' t"
    using assms len by (auto simp: slice_append_def slice_ok_def Let_def split: if_splits)
  show "contents m' t = contents m t" if "keeps_clear t s"
    using that assms len
    by (auto simp: slice_append_def slice_ok_def contents_def keeps_clear_def Let_def min_def split: if_splits)
qed

lemma slice_append_lengths:
  assumes "slice_ok m s" "slice_append grow s xs m = (s', m')" "a < next_array m"
  shows "length (arrays m' a) = length (arrays m a)"
  using assms contents_length [OF assms(1)] by (auto simp: slice_append_def slice_ok_def Let_def split: if_splits)

section \<open>Contexts\<close>

record shared_context =
  ctx_prefix :: slice
  ctx_suffix :: slice

text \<open>\<open>NewContext\<close>: two nil slices, which share the empty array 0.\<close>

definition new_memory :: "'a memory" where
  "new_memory = \<lparr>arrays = (\<lambda>_. []), next_array = 1\<rparr>"

definition new_shared :: shared_context where
  "new_shared = \<lparr>ctx_prefix = \<lparr>array = 0, slice_len = 0\<rparr>, ctx_suffix = \<lparr>array = 0, slice_len = 0\<rparr>\<rparr>"

definition shared_with :: "(nat \<Rightarrow> 'a val list) \<Rightarrow> 'a val list \<Rightarrow> shared_context \<Rightarrow> 'a val memory
    \<Rightarrow> shared_context \<times> 'a val memory" where
  "shared_with grow keyvals c m =
     (let (s, m') = slice_append grow (ctx_suffix c) keyvals m in (c\<lparr>ctx_suffix := s\<rparr>, m'))"

definition shared_with_prefix :: "(nat \<Rightarrow> 'a val list) \<Rightarrow> 'a val list \<Rightarrow> shared_context \<Rightarrow> 'a val memory
    \<Rightarrow> shared_context \<times> 'a val memory" where
  "shared_with_prefix grow keyvals c m =
     (let (s, m') = slice_append grow (ctx_prefix c) keyvals m in (c\<lparr>ctx_prefix := s\<rparr>, m'))"

text \<open>\<open>Log\<close>: the message the inner logger gets, and the memory after.\<close>

definition shared_log :: "(nat \<Rightarrow> 'a val list) \<Rightarrow> shared_context \<Rightarrow> 'a val list \<Rightarrow> 'a val memory
    \<Rightarrow> 'a val list \<times> 'a val memory" where
  "shared_log grow c keyvals m =
     (let (s, m) = slice_append grow (ctx_prefix c) keyvals m;
          (s, m) = slice_append grow s (contents m (ctx_suffix c)) m
      in (contents m s, m))"

definition view :: "'a val memory \<Rightarrow> shared_context \<Rightarrow> 'a log_context" where
  "view m c = \<lparr>log_prefix = contents m (ctx_prefix c), log_suffix = contents m (ctx_suffix c)\<rparr>"

definition context_ok :: "'a val memory \<Rightarrow> shared_context \<Rightarrow> bool" where
  "context_ok m c \<longleftrightarrow> slice_ok m (ctx_prefix c) \<and> slice_ok m (ctx_suffix c) \<and>
     (array (ctx_prefix c) = array (ctx_suffix c) \<longrightarrow> arrays m (array (ctx_prefix c)) = [])"

lemma context_ok_new: "context_ok new_memory new_shared"
  by (simp add: context_ok_def new_memory_def new_shared_def slice_ok_def)

lemma view_new: "view new_memory new_shared = new_context"
  by (simp add: view_def contents_def new_memory_def new_shared_def new_context_def)

lemma context_ok_clear:
  "context_ok m c \<Longrightarrow> keeps_clear (ctx_suffix c) (ctx_prefix c) \<and> keeps_clear (ctx_prefix c) (ctx_suffix c)"
  by (auto simp: context_ok_def keeps_clear_def slice_ok_def)

lemma slice_append_array:
  assumes "slice_append grow s xs m = (s', m')" "slice_ok m s" "slice_ok m t"
    and "array s = array t \<longrightarrow> arrays m (array s) = []"
  shows "array s' = array t \<longrightarrow> arrays m' (array s') = []"
  using assms by (auto simp: slice_append_def slice_ok_def contents_def Let_def split: if_splits)

lemma shared_with_ok:
  assumes "context_ok m c" "shared_with grow kv c m = (c', m')"
  shows "context_ok m' c'" "view m' c' = context_with kv (view m c)" "view m' c = view m c" "context_ok m' c"
proof -
  obtain s where s: "slice_append grow (ctx_suffix c) kv m = (s, m')" "c' = c\<lparr>ctx_suffix := s\<rparr>"
    using assms(2) by (auto simp: shared_with_def split: prod.splits)
  from assms(1) have ok: "slice_ok m (ctx_prefix c)" "slice_ok m (ctx_suffix c)"
    by (simp_all add: context_ok_def)
  note suffix = slice_append_contents [OF ok(2) s(1)]
  note prefix = slice_append_others [OF ok(2) s(1) ok(1)] and old = slice_append_others [OF ok(2) s(1) ok(2)]
  note apart = slice_append_array [OF s(1) ok(2,1)]
  show "context_ok m' c'"
    using suffix(2) prefix(1) apart assms(1) s(2) by (simp add: context_ok_def) metis
  show "view m' c' = context_with kv (view m c)"
    using suffix(1) prefix(2) context_ok_clear [OF assms(1)] s(2) by (simp add: view_def context_with_def)
  show "view m' c = view m c"
    using prefix(2) old(2) context_ok_clear [OF assms(1)] by (simp add: view_def)
  have "length (arrays m' (array (ctx_prefix c))) = length (arrays m (array (ctx_prefix c)))"
    using ok(1) by (intro slice_append_lengths [OF ok(2) s(1)]) (simp add: slice_ok_def)
  then show "context_ok m' c" using prefix(1) old(1) assms(1) by (auto simp: context_ok_def)
qed

lemma shared_with_prefix_ok:
  assumes "context_ok m c" "shared_with_prefix grow kv c m = (c', m')"
  shows "context_ok m' c'" "view m' c' = context_with_prefix kv (view m c)" "view m' c = view m c"
proof -
  obtain s where s: "slice_append grow (ctx_prefix c) kv m = (s, m')" "c' = c\<lparr>ctx_prefix := s\<rparr>"
    using assms(2) by (auto simp: shared_with_prefix_def split: prod.splits)
  from assms(1) have ok: "slice_ok m (ctx_prefix c)" "slice_ok m (ctx_suffix c)"
    by (simp_all add: context_ok_def)
  note prefix = slice_append_contents [OF ok(1) s(1)]
  note suffix = slice_append_others [OF ok(1) s(1) ok(2)] and old = slice_append_others [OF ok(1) s(1) ok(1)]
  note apart = slice_append_array [OF s(1) ok]
  show "context_ok m' c'"
    using prefix(2) suffix(1) apart assms(1) s(2) by (simp add: context_ok_def)
  show "view m' c' = context_with_prefix kv (view m c)"
    using prefix(1) suffix(2) context_ok_clear [OF assms(1)] s(2) by (simp add: view_def context_with_prefix_def)
  show "view m' c = view m c"
    using suffix(2) old(2) context_ok_clear [OF assms(1)] by (simp add: view_def)
qed

lemma shared_log_message:
  assumes "context_ok m c" "shared_log grow c keyvals m = (msg, m')"
  shows "msg = context_log (view m c) keyvals"
proof -
  obtain s1 m1 s2 where one: "slice_append grow (ctx_prefix c) keyvals m = (s1, m1)"
      and two: "slice_append grow s1 (contents m1 (ctx_suffix c)) m1 = (s2, m')" "msg = contents m' s2"
    using assms(2) by (auto simp: shared_log_def Let_def split: prod.splits)
  from assms(1) have ok: "slice_ok m (ctx_prefix c)" "slice_ok m (ctx_suffix c)"
    by (simp_all add: context_ok_def)
  note prefix = slice_append_contents [OF ok(1) one] and suffix = slice_append_others [OF ok(1) one ok(2)]
  show ?thesis
    using slice_append_contents [OF prefix(2) two(1)] prefix(1) suffix(2) context_ok_clear [OF assms(1)] two(2)
    by (simp add: view_def context_log_def)
qed

section \<open>Contexts made one from the other\<close>

datatype 'a derivation = DeriveWith "'a val list" | DeriveWithPrefix "'a val list"

fun derive_shared :: "(nat \<Rightarrow> 'a val list) \<Rightarrow> 'a derivation list \<Rightarrow> shared_context \<Rightarrow> 'a val memory
    \<Rightarrow> shared_context \<times> 'a val memory" where
  "derive_shared grow [] c m = (c, m)"
| "derive_shared grow (DeriveWith kv # ds) c m =
     (let (c, m) = shared_with grow kv c m in derive_shared grow ds c m)"
| "derive_shared grow (DeriveWithPrefix kv # ds) c m =
     (let (c, m) = shared_with_prefix grow kv c m in derive_shared grow ds c m)"

fun derive :: "'a derivation list \<Rightarrow> 'a log_context \<Rightarrow> 'a log_context" where
  "derive [] c = c"
| "derive (DeriveWith kv # ds) c = derive ds (context_with kv c)"
| "derive (DeriveWithPrefix kv # ds) c = derive ds (context_with_prefix kv c)"

lemma derive_shared_ok:
  "\<lbrakk>context_ok m c; derive_shared grow ds c m = (c', m')\<rbrakk> \<Longrightarrow>
     context_ok m' c' \<and> view m' c' = derive ds (view m c)"
proof (induction grow ds c m rule: derive_shared.induct)
  case (2 grow kv ds c m)
  obtain c1 m1 where one: "shared_with grow kv c m = (c1, m1)" by (cases "shared_with grow kv c m")
  with 2(1) [OF one [symmetric] refl] 2(2,3) shared_with_ok [OF 2(2) one] show ?case by simp
next
  case (3 grow kv ds c m)
  obtain c1 m1 where one: "shared_with_prefix grow kv c m = (c1, m1)" by (cases "shared_with_prefix grow kv c m")
  with 3(1) [OF one [symmetric] refl] 3(2,3) shared_with_prefix_ok [OF 3(2) one] show ?case by simp
qed simp

text \<open>
  C40: A context that is made by one chain of \<open>With\<close> and \<open>WithPrefix\<close> logs what \<open>LogPkg\<close> says,
  whatever room the runtime gives to its slices: the arrays written in place are never read
  by the same context.
\<close>

theorem chained_context_logs_values:
  assumes "derive_shared grow ds new_shared new_memory = (c, m)"
  shows "fst (shared_log grow c keyvals m) = context_log (derive ds new_context) keyvals"
proof -
  have "context_ok m c \<and> view m c = derive ds new_context"
    using derive_shared_ok [OF context_ok_new assms] by (simp add: view_new)
  with shared_log_message [of m c grow keyvals] show ?thesis by (metis prod.collapse)
qed

text \<open>
  Two contexts made by \<open>With\<close> from the same one share an array when it has room: the
  second overwrites the values of the first, which from then on logs those of the second.
\<close>

theorem sibling_contexts_clash:
  assumes "context_ok m c" and "shared_with grow kv1 c m = (c1, m1)" and "shared_with grow kv2 c m1 = (c2, m2)"
    and "length kv2 = length kv1"
    and "slice_len (ctx_suffix c) + length kv1 \<le> length (arrays m (array (ctx_suffix c)))"
  shows "fst (shared_log grow c1 keyvals m2) = context_log (context_with kv2 (view m c)) keyvals"
proof -
  from assms(1) have len: "length (contents m (ctx_suffix c)) = slice_len (ctx_suffix c)"
    by (simp add: context_ok_def contents_length)
  have "c1 = c\<lparr>ctx_suffix := (ctx_suffix c)\<lparr>slice_len := slice_len (ctx_suffix c) + length kv1\<rparr>\<rparr>"
    using assms(2,5) by (auto simp: shared_with_def slice_append_def Let_def)
  moreover have "c2 = c\<lparr>ctx_suffix := (ctx_suffix c)\<lparr>slice_len := slice_len (ctx_suffix c) + length kv2\<rparr>\<rparr>"
    using assms(2-5) len by (auto simp: shared_with_def slice_append_def Let_def)
  ultimately have "c1 = c2" using assms(4) by simp
  note second = shared_with_ok [OF shared_with_ok(4) [OF assms(1,2)] assms(3)]
  from shared_log_message [OF second(1), of grow keyvals] second(2) shared_with_ok(3) [OF assms(1,2)]
  show ?thesis unfolding \<open>c1 = c2\<close> by (metis prod.collapse)
qed

text \<open>Three steps on from the empty one, with arrays that have room for eight once six are needed.\<close>

definition eight :: "nat \<Rightarrow> unit val list" where
  "eight n = (if n = 6 then [Str [], Str []] else [])"

definition chain :: "unit derivation list" where
  "chain = [DeriveWith [Str ''dir'', Level 1], DeriveWith [Str ''src'', Level 2], DeriveWith [Str ''dst'', Level 3]]"

theorem chained_context_logs_values_witness:
  "fst (shared_log eight (fst (derive_shared eight chain new_shared new_memory)) [Str ''msg'', Level 0]
      (snd (derive_shared eight chain new_shared new_memory)))
   = [Str ''msg'', Level 0, Str ''dir'', Level 1, Str ''src'', Level 2, Str ''dst'', Level 3]"
proof -
  have "context_log (derive chain new_context) [Str ''msg'', Level 0]
      = [Str ''msg'', Level 0, Str ''dir'', Level 1, Str ''src'', Level 2, Str ''dst'', Level 3]"
    by (simp add: chain_def context_with_def new_context_def context_log_def)
  with chained_context_logs_values [of eight chain] show ?thesis by (metis prod.collapse)
qed

lemma chain_made:
  "\<exists>m. derive_shared eight chain new_shared new_memory
       = (\<lparr>ctx_prefix = \<lparr>array = 0, slice_len = 0\<rparr>, ctx_suffix = \<lparr>array = 3, slice_len = 6\<rparr>\<rparr>, m) \<and>
     length (arrays m 3) = 8"
  by (simp add: chain_def shared_with_def slice_append_def new_shared_def new_memory_def contents_def eight_def Let_def)

theorem sibling_contexts_clash_witness:
  "\<exists>c m c1 m1 c2 m2. derive_shared eight chain new_shared new_memory = (c, m) \<and>
     shared_with eight [Str ''id'', Level 7] c m = (c1, m1) \<and>
     shared_with eight [Str ''id'', Level 8] c m1 = (c2, m2) \<and>
     fst (shared_log eight c1 [] m2)
       = [Str ''dir'', Level 1, Str ''src'', Level 2, Str ''dst'', Level 3, Str ''id'', Level 8]"
proof -
  obtain c m where cm: "derive_shared eight chain new_shared new_memory = (c, m)"
      and room: "slice_len (ctx_suffix c) + length [Str ''id'', Level 7 :: unit val] \<le> length (arrays m (array (ctx_suffix c)))"
    using chain_made by auto
  obtain c1 m1 where one: "shared_with eight [Str ''id'', Level 7] c m = (c1, m1)" by fastforce
  obtain c2 m2 where two: "shared_with eight [Str ''id'', Level 8] c m1 = (c2, m2)" by fastforce
  have ok: "context_ok m c" "view m c = derive chain new_context"
    using derive_shared_ok [OF context_ok_new cm] by (simp_all add: view_new)
  from sibling_contexts_clash [OF ok(1) one two _ room, of "[]"]
  have "fst (shared_log eight c1 [] m2) = context_log (context_with [Str ''id'', Level 8] (derive chain new_context)) []"
    by (simp add: ok(2))
  also have "\<dots> = [Str ''dir'', Level 1, Str ''src'', Level 2, Str ''dst'', Level 3, Str ''id'', Level 8]"
    by (simp add: chain_def context_with_def new_context_def context_log_def)
  finally show ?thesis using cm one two by blast
qed

end
