(* ===== verification/Spec2Isabelle.thy ===== *)
theory Spec2Isabelle
  imports IdFormat ServerSpec StreamRelay Commands CaCmd LogSlices
begin

text \<open>
  A verification development for go-stream-tunnel, a reverse tunnel in Go: clients behind a
  NAT keep one TLS connection with HTTP/2 to a server; the server opens tcp listeners for
  them, or routes http requests by subdomain, and carries every public connection over the
  client's connection to a local service. The command line program also has the commands
  that run either side and a small certificate authority.

  \<^bold>\<open>Parts and theories.\<close>
  \<^item> \<open>GoStrings\<close>, \<open>HostPort\<close>, \<open>Paths\<close>, \<open>Base32\<close>, \<open>Regexps\<close>: what the code uses of Go's
    standard library (packages strings, net, strconv, filepath, base32, regexp), with
    \<open>NormalizeAddress\<close> (utils.go) and \<open>trimPort\<close> (registry.go). \<open>Prelude\<close> has the lemmas on
    maps that all components share and the locales of codecs, of systems with an invariant and
    of simulations, step by step and by traces of events.
  \<^item> \<open>Ids\<close>, \<open>IdFormat\<close>: package id, the 32-byte identifier of a client, its text form in both
    directions, and the identifier of a TLS peer.
  \<^item> \<open>Proto\<close>: package proto, the control message in the headers of a request, the tunnel, and
    the test for subdomains.
  \<^item> \<open>Registry\<close>: registry.go, the two maps from names to clients and from clients to what
    they own; each method under the mutex is one function. \<open>RegistrySpec\<close> has its abstract
    specification, a directory of names, and the refinement.
  \<^item> \<open>HttpHost\<close>: httphost.go, names of http tunnels, peeking at the Host header and replaying.
  \<^item> \<open>Pool\<close>: pool.go, the pool of client connections that the HTTP/2 transport asks.
  \<^item> \<open>ServerTunnels\<close>, \<open>ServerClients\<close>, \<open>ServerHttp\<close>: server.go. The server's state is the
    pool with, as its environment, the registry, the open listeners and the pushes sent.
    They hold \<open>addTunnels\<close> and \<open>disconnected\<close>; \<open>handleClient\<close> from accept to admission or
    rejection and \<open>Unsubscribe\<close>; construction, \<open>Start\<close>, \<open>Stop\<close>, the accept loops,
    \<open>handleHTTPConn\<close> and the request of \<open>proxyConn\<close>. There \<open>disconnected\<close> is one function;
    for the concurrent server it is split into \<open>released\<close>, the critical section of the
    registry, and the closing of each listener. \<open>ProxyConn\<close> has the two directions of
    copying, as a step relation with the cancellation that ties them together: the copies
    hold a chunk at a time, and a write waits for room in the stream or in the user's socket.
  \<^item> \<open>ServerRuns\<close>, \<open>HandlerRuns\<close>, \<open>ServerAccess\<close>: the same server under concurrency. A system has the server's
    state and, for each connection, how far its \<open>handleClient\<close> is; a step is one critical
    section of one handler, of \<open>Unsubscribe\<close>, or of the pool on behalf of the HTTP/2 layer, or
    the closing of one listener. What a handler asks of the outside is answered by a record
    \<open>outside\<close>; a peer may leave the TLS handshake unanswered for ever.
    \<open>ServerSpec\<close> has its abstract specification, a deterministic service that performs the
    events of a run one by one, and the refinement.
  \<^item> \<open>Client\<close>: client.go and backoff.go, dialling with backoff, the dispatch of the server's requests, and
    \<open>Start\<close> as a step relation next to the goroutine that calls \<open>Stop\<close>.
  \<^item> \<open>Utils\<close>, \<open>StreamProxy\<close>: utils.go, keepalive.go, tunnel.go, streamproxy.go, proxy.go.
    \<open>StreamRelay\<close> has the two directions of \<open>Proxy\<close> as a step relation, and composes it
    with \<open>ProxyConn\<close> to the whole way of a connection.
  \<^item> \<open>ClientConfig\<close>, \<open>ClientCmd\<close>, \<open>ServerCmd\<close>, \<open>CaPki\<close>, \<open>CaCmd\<close>, \<open>MainCmd\<close>: the commands
    under cmd/ and package ca. \<open>Commands\<close> joins the commands to the exit status.
  \<^item> \<open>LogPkg\<close>, \<open>LogSlices\<close>: the loggers, the filter and the context of package log, on
    values, and the context again with the arrays its slices share.

  \<^bold>\<open>What the lemmas show.\<close> The invariants of the registry, the pool and the whole server hold
  in every state that any order of connections, rejections, removals and requests produces
  (\<open>Registry\<close>, \<open>ServerClients\<close> and \<open>ServerRuns\<close>, \<open>Client\<close> for the client and \<open>ProxyConn\<close> and
  \<open>StreamRelay\<close> for a connection that is carried, interpret the locale of
  systems with an invariant). The registry refines the directory of names, by the locale of
  simulations, and the concurrent server the service, by the locale of traced simulations:
  the events of every run are ones the service allows, and they lead it to the server's state.
  However handlers
  interleave, every open listener has one owner that will close it; a handler takes finitely
  many steps, and waits for nothing without end but the TLS handshake of its peer; without automatic
  subscription only subscribed clients are ever served. A connection is a pipe from end to
  end, whole if nothing fails and the user keeps the sending side open; a user who leaves is
  let go as long as both ends take what is sent. Tunnels are added all together
  or not at all, and leaving undoes a registration exactly; only entitled clients change
  anything; a rejected connection does not stay.
  A public connection goes to the client that registered its host, with all its bytes; this
  theory composes that with the client's configuration, its proxy and its handshake from end
  to end, and likewise the certificate authority with the server's list of clients, and a
  rejection with what the client's \<open>Start\<close> returns. Text forms round trip (identifiers,
  control messages). The client holds one connection at a time and ends when it is cancelled
  while serving; its dialling ends when an attempt succeeds or the policy gives up. The
  commands overwrite no key, use only private ones, trust only the configured authority, and
  accept exactly the configurations whose tunnels can be completed, to well-formed addresses
  but for IPv6 hosts and empty ports. Some theorems state where the code does not do what it means
  to: null tunnels, short identifiers, handlers that outlive a reconnect, registrations that
  outlive their connection, local services that fall silent or close first, clients that do
  not read, IPv6 addresses,
  base domains with upper case or a port, numeric subdomains, remote host names, half-closed
  connections, lost cancellations, partly written certificates, log contexts made from the same one, orderly
  stops that exit with an error.

  \<^bold>\<open>Conventions.\<close> Strings are lists of bytes. Errors are values of a datatype with one
  constructor for each \<open>return\<close>, in the left of a sum; a panic is a result of its own. A range
  over a Go map is a list of entries in the order of the range, and theorems quantify over it.
  Slices are values except in \<open>LogSlices\<close>; no other code appends to a slice it shares. A loop that
  accepts connections runs over the list of what \<open>Accept\<close> returns. No definition uses fuel:
  loops recurse on their data, \<open>chunk_sevens\<close>, \<open>b32_decode_raw\<close> with a measure, and the dial
  loop, which may run for ever, is a partial function whose value \<open>None\<close> is not returning.
  Times are integers in nanoseconds.

  \<^bold>\<open>Arguments of the model.\<close> TLS handshakes, SHA-256, key generation and certificates, the
  HTTP/2 connections (whether one takes a request, whether the transport sends it with the
  header it has, what it answers), how much the streams and sockets hold (\<open>room\<close>), \<open>net.Listen\<close> and dialling,
  the file system's outcomes, the JSON and YAML decoders, the parser of request heads, the
  clock, Unicode case mapping outside ASCII, and the backoff policy. In \<open>ServerClients\<close> what
  other goroutines do while a handler waits is a function on the server's state, quantified
  over in the theorems that allow interference.

  \<^bold>\<open>Not modelled.\<close> In \<open>StreamProxy\<close> the two directions run one after the other, on separate
  states, with the log lines and the addresses; \<open>StreamRelay\<close> has them interleaved, without.
  The encoding of JSON bodies. Log lines, except what package log makes of them and those of
  \<open>transfer\<close>. The generated mocks, usage texts, tests, and what surrounds the program
  (container, Kubernetes and continuous integration).
\<close>

section \<open>From the configuration file to the local service\<close>

text \<open>
  C1: An http tunnel works from end to end. If the client's configuration loads and the
  server accepts the handshake the client makes of it, in whatever order either side ranges
  over the tunnels, then a public request for the tunnel's subdomain is forwarded to this
  client with all its bytes, the control message arrives at the client as it was sent, the
  client treats it as a stream, and the stream proxy dials the local address the user wrote
  for this tunnel.
\<close>

theorem http_tunnel_end_to_end:
  assumes "load_tunnels ts Map.empty = Loaded ts'" and "(name, Some t) \<in> set ts'" and "TProtocol t = HTTP"
    and "mset hs = mset (handshake_tunnels (loaded_entries ts'))"
    and "fresh_listen lsn" and "add_tunnels lsn cfg hs i w = (Added, w')"
    and "routable_domain (BaseDomain cfg)"
    and "peek_host_header room parse input = Inr (host, replay)"
    and "host_value_for (http_full_host (BaseDomain cfg) (TSubdomain t)) host"
  shows "\<exists>msg m. route_http uni room parse cfg False False input (reg w') = Forwarded i msg replay \<and>
    concat replay = concat input \<and>
    read_control_message (write_to_header msg Map.empty) remote = Inr m \<and> Action m = ActionProxy \<and>
    proxy_func (Some f) m = Some f \<and>
    local_addr_for (client_proxy (loaded_entries ts')) (ForwardedHost m) = TAddr t"
proof -
  have "(name, t) \<in> set (loaded_entries ts')" using assms(2) loaded_entries_ok(2) [OF assms(1)] by simp
  then have "(name, Some (proto_tunnel t)) \<in> set (handshake_tunnels (loaded_entries ts'))"
    by (force simp: handshake_tunnels_def)
  then have h: "(name, Some (proto_tunnel t)) \<in> set hs" using mset_eq_setD [OF assms(4)] by simp
  have pt: "Protocol (proto_tunnel t) = HTTP" "Host (proto_tunnel t) = TSubdomain t"
    using assms(3) by (simp_all add: proto_tunnel_def)
  have "TSubdomain t \<noteq> []"
    using loaded_tunnels(2) [OF assms(1)] assms(2,3) valid_subdomain_label_chars(1)
    by (auto simp: tunnel_ok_def)
  then have "complete_message \<lparr>Action = ActionProxy, ForwardedHost = TSubdomain t, ForwardedProto = HTTP,
      RemoteAddr = []\<rparr>"
    by (simp add: complete_message_def ActionProxy_def protocol_names)
  from read_written_message [OF this] http_local_addr [OF assms(1-3)]
    added_http_route [OF assms(5,6) h pt(1) assms(7,8)] assms(9) pt(2)
  show ?thesis by (simp add: proxy_func_def)
qed

definition sample_handshake :: "(string \<times> tunnel option) list" where
  "sample_handshake = rev (handshake_tunnels (loaded_entries [web_loaded, ssh_loaded]))"

lemma sample_handshake_accepted:
  "\<exists>w'. add_tunnels sample_listen sample_config sample_handshake zero_ID sample_world = (Added, w')"
proof -
  have "fst (add_tunnels sample_listen sample_config sample_handshake zero_ID sample_world) = Added"
    using valid_web
    by (simp add: add_tunnels_def sample_handshake_def handshake_tunnels_def loaded_entries_def
        web_loaded_def ssh_loaded_def proto_tunnel_def sample_world_def sample_listen_def
        protocol_names registry_set_def subscribe_def new_registry_def)
  then show ?thesis by (metis prod.collapse)
qed

lemma web_lower: "map ascii_lower ''Web.Example.com'' = ''web.example.com''"
  by code_simp

theorem http_tunnel_end_to_end_witness:
  "\<exists>w' msg m. add_tunnels sample_listen sample_config sample_handshake zero_ID sample_world = (Added, w') \<and>
     route_http id (\<lambda>_. 0) (\<lambda>s. if s = [] then Incomplete else HostIs ''Web.Example.com'') sample_config
       False False [''G''] (reg w') = Forwarded zero_ID msg [''G''] \<and>
     read_control_message (write_to_header msg Map.empty) ''10.0.0.1:5223'' = Inr m \<and>
     local_addr_for (client_proxy (loaded_entries [web_loaded, ssh_loaded])) (ForwardedHost m) = ''127.0.0.1:8080''"
proof -
  let ?t = "\<lparr>TProtocol = HTTP, TAddr = ''127.0.0.1:8080'', TRemoteAddr = [], TSubdomain = ''web''\<rparr>"
  let ?parse = "\<lambda>s. if s = [] then Incomplete else HostIs ''Web.Example.com''"
  obtain w' where w': "add_tunnels sample_listen sample_config sample_handshake zero_ID sample_world = (Added, w')"
    using sample_handshake_accepted by blast
  have t: "(''web'', Some ?t) \<in> set [web_loaded, ssh_loaded]" by (simp add: web_loaded_def)
  have hs: "mset sample_handshake = mset (handshake_tunnels (loaded_entries [web_loaded, ssh_loaded]))"
    by (simp add: sample_handshake_def)
  have "host_value_for ''web.example.com'' ''Web.Example.com''"
    unfolding host_value_for_def
    by (rule exI [of _ "''Web.Example.com''"], intro conjI disjI1)
      (simp_all only: web_lower, simp_all add: is_ascii_def)
  then have host: "host_value_for (http_full_host (BaseDomain sample_config) (TSubdomain ?t)) ''Web.Example.com''"
    by (simp add: http_full_host_def)
  have dom: "routable_domain (BaseDomain sample_config)" using sample_domain_routable by simp
  have "\<exists>msg m. route_http id (\<lambda>_. 0) ?parse sample_config False False [''G''] (reg w')
        = Forwarded zero_ID msg [''G''] \<and>
      concat [''G''] = concat [''G''] \<and>
      read_control_message (write_to_header msg Map.empty) ''10.0.0.1:5223'' = Inr m \<and> Action m = ActionProxy \<and>
      proxy_func (Some ()) m = Some () \<and>
      local_addr_for (client_proxy (loaded_entries [web_loaded, ssh_loaded])) (ForwardedHost m) = TAddr ?t"
    by (rule http_tunnel_end_to_end [OF sample_loaded t _ hs sample_listen_fresh w' dom sample_peek host]) simp
  with w' show ?thesis by auto
qed

section \<open>From the issued certificate to the admitted client\<close>

text \<open>
  C22: The identifier that \<open>ca issue\<close> prints is the one the server knows the client by: if a
  server is started with a list that names it, a connection with the issued certificate is
  identified as a subscribed client, and its tunnels are considered; the handler closes it
  as unknown for no other reason.
\<close>

theorem issued_client_admitted:
  assumes "execute_issue e os sha256 opts fs = (Issued crt key ident, fs')"
    and "execute_server uni x lsn sopts opened = Inr (tls, cfg, net, r)"
    and "split_byte CHR '','' (clientIDs sopts) = before_ids @ id_string ident # after_ids"
    and "reg (env p) = r"
  shows "\<exists>cert der. read_content fs' crt = Inr cert \<and> pem_decode e cert = Some der \<and>
    peer_id sha256 None [bytes_of der] = Inr ident \<and>
    fst (handle_client uni sha256 lsn cfg
      (c\<lparr>is_tls := True, tls_handshake := None, peer_certs := [bytes_of der]\<rparr>) k p) \<noteq> Rejected UnknownClient"
proof -
  from execute_issue_Issued [OF assms(1), of False] obtain cert der where
    f: "read_content fs' crt = Inr cert" "pem_decode e cert = Some der" "ident = id_new sha256 (bytes_of der)"
    by blast
  then have peer: "peer_id sha256 None [bytes_of der] = Inr ident" by (simp add: peer_id_def)
  have "Inr ident \<in> unmarshal_text uni zero_ID ` set (split_byte CHR '','' (clientIDs sopts))"
    unfolding assms(3) using id_string_unmarshal [of uni zero_ID ident] by force
  then have "AutoSubscribe cfg \<or> is_subscribed (reg (env p)) ident"
    using execute_server_registry [OF assms(2)] assms(4) by (auto simp: command_config_def)
  then have "fst (handle_client uni sha256 lsn cfg
      (c\<lparr>is_tls := True, tls_handshake := None, peer_certs := [bytes_of der]\<rparr>) k p) \<noteq> Rejected UnknownClient"
    using peer
    by (auto simp: handle_client_def Let_def client_handshake_def reject_pooled_def check_response_def
        split: option.splits sum.splits prod.splits response.splits body.splits add_result.splits if_splits)
  with f peer show ?thesis by blast
qed

definition issued_fs :: fs where
  "issued_fs = snd (execute_init sample_pki sample_os default_ca_options Map.empty)"

definition issue_options :: ca_options where
  "issue_options = default_ca_options\<lparr>certName := ''laptop'', outDir := ''laptop''\<rparr>"

lemma sample_issue:
  "\<exists>fs'. execute_issue sample_pki sample_os zero_hash issue_options issued_fs =
     (Issued (path_join ''laptop'' ''tls.crt'') (path_join ''laptop'' ''tls.key'')
       (id_new zero_hash (bytes_of ''laptop'')), fs')"
proof -
  have none: "issued_fs (path_join ''laptop'' f) = None" if "f = ''tls.crt'' \<or> f = ''tls.key''" for f
  proof -
    have "path_join ''laptop'' ''tls.crt'' = ''laptop/tls.crt''" "path_join ''laptop'' ''tls.key'' = ''laptop/tls.key''"
      "path_join ''ca'' ''ca.crt'' = ''ca/ca.crt''" "path_join ''ca'' ''ca.key'' = ''ca/ca.key''"
      by code_simp+
    with that show ?thesis by (auto simp: issued_fs_def sample_init)
  qed
  have issue: "issue_cert sample_pki ''go-stream-tunnel CA'' ''key'' ''laptop'' [] ca_validity = Inr (''laptop'', ''key'')"
    by (simp add: issue_cert_def sample_pki_def parse_ca_key_pair_def ca_template_def random_serial_def
        leaf_template_def encode_pair_def)
  have files: "read_content issued_fs (path_join ''ca'' ''ca.crt'') = Inr ''go-stream-tunnel CA''"
    "read_content issued_fs (path_join ''ca'' ''ca.key'') = Inr ''key''"
    "check_private_key_permissions False (stat_mode issued_fs) (path_join ''ca'' ''ca.key'') = None"
    by (simp_all add: issued_fs_def sample_init read_content_def stat_mode_def check_private_key_permissions_def)
  have os: "os_windows sample_os = False" "mkdir_all sample_os d = None" "outcome sample_os p = WriteOK" for d p
    by (simp_all add: sample_os_def)
  have pki: "pem_decode sample_pki s = Some s" "parse_cert sample_pki s = Inr (ca_template 1 s 0 10)" for s
    by (simp_all add: sample_pki_def)
  show ?thesis
    by (simp add: execute_issue_def issue_options_def default_ca_options_def files os issue write_issued_def
        none write_key_pair_def write_file_def pki Let_def)
qed

lemma zero_hash_id: "id_new zero_hash d = zero_ID"
  using zero_hash_peer [of d] by (simp add: peer_id_def del: zero_hash_peer)

theorem issued_client_admitted_witness:
  "\<exists>tls cfg net r. execute_server id sample_crypto sample_listen listed_options {} = Inr (tls, cfg, net, r) \<and>
     (\<exists>der. fst (handle_client id zero_hash sample_listen cfg
        (sample_client\<lparr>is_tls := True, tls_handshake := None, peer_certs := [bytes_of der]\<rparr>) 1
        (new_server\<lparr>env := (env new_server)\<lparr>reg := r\<rparr>\<rparr>)) \<noteq> Rejected UnknownClient)"
proof -
  obtain tls cfg net where x: "execute_server id sample_crypto sample_listen listed_options {}
      = Inr (tls, cfg, net, subscribe zero_ID new_registry)" by (rule listed_execute)
  obtain fs' where issue: "execute_issue sample_pki sample_os zero_hash issue_options issued_fs =
     (Issued (path_join ''laptop'' ''tls.crt'') (path_join ''laptop'' ''tls.key'') zero_ID, fs')"
    using sample_issue by (auto simp: zero_hash_id)
  have "split_byte CHR '','' (clientIDs listed_options) = [] @ id_string zero_ID # []"
    by (simp add: listed_split)
  from issued_client_admitted [OF issue x this, of "new_server\<lparr>env := (env new_server)\<lparr>reg := subscribe zero_ID new_registry\<rparr>\<rparr>"
      sample_client 1] x show ?thesis by auto
qed

section \<open>From the refusal to the user\<close>

text \<open>The request the client sees when the server pushes the text of an error.\<close>

definition error_request :: "string \<Rightarrow> string \<Rightarrow> client_request" where
  "error_request err remote =
     \<lparr>is_connect = True, request_header = header_set HeaderError err Map.empty,
      request_remote = remote, tunnel_info = Inr []\<rparr>"

lemma reject_pooled_pushes:
  assumes "conns p (pool_addr i) = Some cp" and "can (client_conn cp)" and "may (ErrorPush err)"
  shows "pushes (env (snd (reject_pooled uni can may err i p))) = pushes (env p) @ [(client_conn cp, ErrorPush err)]"
proof -
  have "pushes (disconnected j w) = pushes w" for j and w :: world
    by (auto simp: disconnected_def close_listeners_def split: option.split prod.split)
  then show ?thesis
    using assms
    by (simp add: reject_pooled_def notify_error_def push_to_client_ok delete_conn_def pool_close_env Let_def)
qed

text \<open>
  C26: A refusal reaches the user of the client. When the server rejects a connection that is
  still in its pool and usable, and the transport does not refuse the text of the reason as the
  value of a header, it sends the reason over it, once; the client takes this request for
  nothing but an error; and when the connection then ends, \<open>Start\<close> returns this error and does
  not dial again, whatever the time since the last disconnection.
\<close>

theorem refusal_reaches_user:
  assumes "conns p (pool_addr i) = Some cp" and "can (client_conn cp)" and "may (ErrorPush err)"
    and "describe err \<noteq> []" and "point c = Disconnected" and "\<not> ctx_done c"
  shows "pushes (env (snd (reject_pooled uni can may err i p))) = pushes (env p) @ [(client_conn cp, ErrorPush err)] \<and>
    serve_http ccfg me (error_request (describe err) remote) = (NothingWritten, Some (describe err)) \<and>
    point (client_decide now (client_check_context (c\<lparr>server_err := Some (describe err)\<rparr>)))
      = Returned (ServerError (describe err))"
  using assms reject_pooled_pushes [of p i cp can may err, OF assms(1-3)]
  by (simp add: error_request_def serve_http_def handle_handshake_error_def header_get_set client_decide_def
      client_check_context_def)

definition pooled_server :: server where
  "pooled_server = new_server\<lparr>conns := [pool_addr zero_ID \<mapsto> \<lparr>conn_pair.conn = 1, client_conn = 5\<rparr>]\<rparr>"

theorem refusal_reaches_user_witness:
  "pushes (env (snd (reject_pooled id (\<lambda>_. True) (\<lambda>_. True) NoTunnels zero_ID pooled_server))) = [(5, ErrorPush NoTunnels)] \<and>
   point (client_decide 0 (client_check_context
     (serving_client\<lparr>point := Disconnected, server_err := Some ''no tunnels''\<rparr>))) = Returned (ServerError ''no tunnels'')"
proof -
  have p: "conns pooled_server (pool_addr zero_ID) = Some \<lparr>conn_pair.conn = 1, client_conn = 5\<rparr>"
    by (simp add: pooled_server_def)
  from refusal_reaches_user [OF p, of "\<lambda>_. True" "\<lambda>_. True" NoTunnels "\<lambda>_. ''no tunnels''"
      "serving_client\<lparr>point := Disconnected\<rparr>" id _ None _ 0]
  show ?thesis
    by (simp add: pooled_server_def new_server_def serving_client_def client_connect_def Client.new_client_def)
qed

end
